theory Spec2Isabelle
  imports Main "HOL-Library.Sublist" "HOL-Library.AList" "HOL-Library.Multiset"
begin

section \<open>Text values\<close>

text \<open>
  A Python \<open>str\<close> is a sequence of Unicode code points, and \<open>len\<close> counts code points.
  Text is therefore a list of code points; \<open>ascii\<close> embeds an ASCII literal.
\<close>

type_synonym ustring = "nat list"

definition ascii :: "string \<Rightarrow> ustring" where
  "ascii s = map of_char s"

text \<open>
  \<open>str.isspace\<close> of one code point: the white-space code points of Python 3.
\<close>

definition isspace :: "nat \<Rightarrow> bool" where
  "isspace c \<longleftrightarrow>
     (0x09 \<le> c \<and> c \<le> 0x0D) \<or> (0x1C \<le> c \<and> c \<le> 0x20) \<or> c = 0x85 \<or> c = 0xA0 \<or>
     c = 0x1680 \<or> (0x2000 \<le> c \<and> c \<le> 0x200A) \<or> c = 0x2028 \<or> c = 0x2029 \<or>
     c = 0x202F \<or> c = 0x205F \<or> c = 0x3000"

text \<open>\<open>str.strip()\<close>: white space removed at both ends.\<close>

definition strip :: "ustring \<Rightarrow> ustring" where
  "strip s = rev (dropWhile isspace (rev (dropWhile isspace s)))"

text \<open>
  \<open>str.replace(old, new)\<close>: the occurrences of \<open>old\<close> are found from left to right without
  overlap, and the text put in is not scanned again. With an empty \<open>old\<close>, \<open>new\<close> is put
  before every code point and at the end.
\<close>

function replace :: "ustring \<Rightarrow> ustring \<Rightarrow> ustring \<Rightarrow> ustring" where
  "replace old new [] = (if old = [] then new else [])"
| "replace old new (c # cs) =
     (if old = [] then new @ concat (map (\<lambda>d. d # new) (c # cs))
      else if prefix old (c # cs) then new @ replace old new (drop (length old) (c # cs))
      else c # replace old new cs)"
  by pat_completeness auto
termination
  by (relation "measure (\<lambda>(old, new, s). length s)") auto

text \<open>\<open>sub in s\<close> on strings: \<open>sub\<close> occurs in \<open>s\<close> as a contiguous run.\<close>

fun contains :: "ustring \<Rightarrow> ustring \<Rightarrow> bool" where
  "contains sub [] = (sub = [])"
| "contains sub (c # cs) = (prefix sub (c # cs) \<or> contains sub cs)"

text \<open>
  The functions of Python's Unicode database that the content processor calls. They are
  library code driven by the Unicode tables, so the processor takes them as a parameter:
  \<open>unicodedata.normalize('NFC', _)\<close>, \<open>str.isupper\<close> and \<open>str.lower\<close>.
\<close>

record unicode_lib =
  normalize_NFC :: "ustring \<Rightarrow> ustring"
  str_isupper :: "ustring \<Rightarrow> bool"
  str_lower :: "ustring \<Rightarrow> ustring"

text \<open>
  The library on text whose letters are ASCII letters and whose other code points have
  no case and no decomposition (digits, punctuation, dashes, typographic quotation marks):
  every such string is in normal form, the cased code points are the letters, and lowering
  adds 32 to a capital letter.
\<close>

definition ascii_isupper :: "ustring \<Rightarrow> bool" where
  "ascii_isupper s \<longleftrightarrow>
     (\<exists>c \<in> set s. 0x41 \<le> c \<and> c \<le> 0x5A) \<and> (\<forall>c \<in> set s. \<not> (0x61 \<le> c \<and> c \<le> 0x7A))"

definition ascii_lower :: "ustring \<Rightarrow> ustring" where
  "ascii_lower s = map (\<lambda>c. if 0x41 \<le> c \<and> c \<le> 0x5A then c + 32 else c) s"

definition ascii_lib :: unicode_lib where
  "ascii_lib = \<lparr>normalize_NFC = (\<lambda>s. s), str_isupper = ascii_isupper, str_lower = ascii_lower\<rparr>"

section \<open>Content processor\<close>

record ContentProcessor =
  paragraph_min_length :: int

definition ContentProcessor_init :: ContentProcessor where
  "ContentProcessor_init = \<lparr>paragraph_min_length = 10\<rparr>"

text \<open>
  The \<open>replacements\<close> dictionary of \<open>clean_vietnamese_text\<close>, in insertion order. In the
  source file the quote characters of the first four entries are the ASCII ones, so the
  first two entries are the same key \<open>"\<close> mapped to itself, and the next two lines read as
  one entry whose key is a triple-quoted string: colon, space, \<open>"'",\<close>, a newline and
  twelve spaces, mapped to \<open>'\<close>.
\<close>

definition triple_quoted_key :: ustring where
  "triple_quoted_key = [0x3A, 0x20, 0x22, 0x27, 0x22, 0x2C, 0x0A] @ replicate 12 0x20"

definition replacements :: "(ustring \<times> ustring) list" where
  "replacements =
     [([0x22], [0x22]),
      (triple_quoted_key, [0x27]),
      ([0x2013], [0x2014]),
      ([0x2E, 0x2E, 0x2E], [0x2026]),
      ([0x20, 0x20], [0x20])]"

definition clean_vietnamese_text :: "unicode_lib \<Rightarrow> ustring \<Rightarrow> ustring" where
  "clean_vietnamese_text L text =
     (if text = [] then []
      else strip (fold (\<lambda>(old, new) t. replace old new t) replacements (normalize_NFC L text)))"

datatype content_type = Empty | Dialog | Header | Paragraph

definition header_keywords :: "ustring list" where
  "header_keywords =
     [[0x63, 0x68, 0x1B0, 0x1A1, 0x6E, 0x67], [0x70, 0x68, 0x1EA7, 0x6E], [0x6D, 0x1EE5, 0x63]]"

definition detect_content_type :: "unicode_lib \<Rightarrow> ustring \<Rightarrow> content_type" where
  "detect_content_type L text =
     (if text = [] then Empty
      else let text_clean = strip text in
        if contains [0x22] text_clean \<or> prefix [0x22] text_clean \<or> prefix [0x2014] text_clean
        then Dialog
        else if length text_clean < 100 \<and>
                (str_isupper L text_clean \<or>
                 list_ex (\<lambda>keyword. contains keyword (str_lower L text_clean)) header_keywords)
        then Header
        else Paragraph)"

record block =
  type :: content_type
  content :: ustring
  original_index :: nat
  original_length :: nat

text \<open>The loop of \<open>process_sheet_content\<close> over \<open>enumerate(raw_content_list)\<close>, from index \<open>i\<close>.\<close>

fun process_rows :: "unicode_lib \<Rightarrow> ContentProcessor \<Rightarrow> nat \<Rightarrow> ustring list \<Rightarrow> block list" where
  "process_rows L cp i [] = []"
| "process_rows L cp i (raw_text # rest) =
     (if raw_text = [] \<or> strip raw_text = [] then process_rows L cp (Suc i) rest
      else let cleaned_text = clean_vietnamese_text L raw_text in
        if int (length cleaned_text) < paragraph_min_length cp then process_rows L cp (Suc i) rest
        else \<lparr>type = detect_content_type L cleaned_text, content = cleaned_text,
               original_index = i, original_length = length raw_text\<rparr>
             # process_rows L cp (Suc i) rest)"

definition process_sheet_content :: "unicode_lib \<Rightarrow> ContentProcessor \<Rightarrow> ustring list \<Rightarrow> block list" where
  "process_sheet_content L cp raw_content_list =
     (if raw_content_list = [] then [] else process_rows L cp 0 raw_content_list)"

text \<open>The dictionary that the loop body builds for row \<open>i\<close>.\<close>

definition make_block :: "unicode_lib \<Rightarrow> nat \<Rightarrow> ustring \<Rightarrow> block" where
  "make_block L i raw_text =
     \<lparr>type = detect_content_type L (clean_vietnamese_text L raw_text),
      content = clean_vietnamese_text L raw_text,
      original_index = i, original_length = length raw_text\<rparr>"

text \<open>
  Normalisation to NFC turns white space into white space (the only white-space code
  points it changes are U+2000 and U+2001, which become U+2002 and U+2003).
\<close>

definition nfc_keeps_blank :: "unicode_lib \<Rightarrow> bool" where
  "nfc_keeps_blank L \<longleftrightarrow> (\<forall>s. strip s = [] \<longrightarrow> strip (normalize_NFC L s) = [])"

section \<open>Exceptions\<close>

text \<open>
  A call returns a value (\<open>Inr\<close>) or raises (\<open>Inl\<close>). \<open>OtherError\<close> stands for any other
  subclass of \<open>Exception\<close> (an I/O or library error); \<open>KeyboardInterrupt\<close> is the one
  exception below that \<open>except Exception\<close> does not catch.
\<close>

datatype exn =
  AttributeError string | KeyError string | TypeError string | ValueError string |
  OtherError string | KeyboardInterrupt

fun is_Exception :: "exn \<Rightarrow> bool" where
  "is_Exception KeyboardInterrupt = False"
| "is_Exception _ = True"

definition bind :: "exn + 'a \<Rightarrow> ('a \<Rightarrow> exn + 'b) \<Rightarrow> exn + 'b" where
  "bind m f = (case m of Inl e \<Rightarrow> Inl e | Inr x \<Rightarrow> f x)"

text \<open>\<open>try: m  except Exception: return None\<close>\<close>

definition except_Exception_None :: "exn + 'a option \<Rightarrow> exn + 'a option" where
  "except_Exception_None m =
     (case m of Inl e \<Rightarrow> if is_Exception e then Inr None else Inl e | Inr x \<Rightarrow> Inr x)"

definition raised :: "exn option \<Rightarrow> exn + unit" where
  "raised r = (case r of None \<Rightarrow> Inr () | Some e \<Rightarrow> Inl e)"

section \<open>Style manager\<close>

text \<open>
  A \<open>ParagraphStyle\<close> is its name and its attributes. The keyword arguments come first
  and the attributes of the parent after them, so that a lookup finds the overriding
  value. Lengths are in points (\<open>0.25*inch\<close> is 18).
\<close>

datatype attr = Num int | Str string

record ParagraphStyle =
  name :: string
  attrs :: "(string \<times> attr) list"

definition ParagraphStyle_init ::
    "string \<Rightarrow> ParagraphStyle option \<Rightarrow> (string \<times> attr) list \<Rightarrow> ParagraphStyle" where
  "ParagraphStyle_init n parent kw =
     \<lparr>name = n, attrs = kw @ (case parent of None \<Rightarrow> [] | Some p \<Rightarrow> attrs p)\<rparr>"

type_synonym stylesheet = "(string \<times> ParagraphStyle) list"

text \<open>\<open>StyleSheet1.add\<close> refuses a name that the sheet already has.\<close>

definition add :: "ParagraphStyle \<Rightarrow> stylesheet \<Rightarrow> exn + stylesheet" where
  "add style sheet =
     (if name style \<in> set (map fst sheet) then Inl (KeyError (name style))
      else Inr (sheet @ [(name style, style)]))"

definition getitem :: "('k \<times> 'v) list \<Rightarrow> 'k \<Rightarrow> string \<Rightarrow> exn + 'v" where
  "getitem d k shown = (case map_of d k of None \<Rightarrow> Inl (KeyError shown) | Some v \<Rightarrow> Inr v)"

record BusinessStyleManager =
  base_font :: string
  styles :: stylesheet

text \<open>
  The four styles of \<open>_create_business_styles\<close>, by the font names computed there; the last
  two take the style found under \<open>BusinessBody\<close> as parent.
\<close>

definition BusinessChapter :: "string \<Rightarrow> ParagraphStyle" where
  "BusinessChapter bold_font =
     ParagraphStyle_init ''BusinessChapter'' None
       [(''fontSize'', Num 24), (''textColor'', Str ''#1a1a1a''), (''spaceAfter'', Num 24),
        (''spaceBefore'', Num 12), (''alignment'', Str ''TA_LEFT''),
        (''fontName'', Str bold_font), (''leading'', Num 30)]"

definition BusinessBody :: "string \<Rightarrow> ParagraphStyle" where
  "BusinessBody font =
     ParagraphStyle_init ''BusinessBody'' None
       [(''fontSize'', Num 12), (''leading'', Num 16), (''alignment'', Str ''TA_JUSTIFY''),
        (''spaceAfter'', Num 8), (''spaceBefore'', Num 0), (''firstLineIndent'', Num 0),
        (''fontName'', Str font), (''textColor'', Str ''#1a1a1a''), (''wordWrap'', Str ''CJK'')]"

definition BusinessDialog :: "string \<Rightarrow> ParagraphStyle \<Rightarrow> ParagraphStyle" where
  "BusinessDialog italic_font body =
     ParagraphStyle_init ''BusinessDialog'' (Some body)
       [(''leftIndent'', Num 18), (''fontName'', Str italic_font), (''textColor'', Str ''#2a2a2a'')]"

definition BusinessFirst :: "ParagraphStyle \<Rightarrow> ParagraphStyle" where
  "BusinessFirst body = ParagraphStyle_init ''BusinessFirst'' (Some body) [(''spaceBefore'', Num 0)]"

definition bold_font :: "string \<Rightarrow> string" where
  "bold_font font = (if font \<noteq> ''Helvetica'' then font @ ''-Bold'' else ''Helvetica-Bold'')"

definition italic_font :: "string \<Rightarrow> string" where
  "italic_font font = (if font \<noteq> ''Helvetica'' then font @ ''-Italic'' else ''Helvetica-Oblique'')"

text \<open>
  \<open>_create_business_styles\<close>, on the sample style sheet of the library and the base font
  that font registration found.
\<close>

definition create_business_styles :: "string \<Rightarrow> stylesheet \<Rightarrow> exn + stylesheet" where
  "create_business_styles font sample =
     bind (add (BusinessChapter (bold_font font)) sample) (\<lambda>s1.
     bind (add (BusinessBody font) s1) (\<lambda>s2.
     bind (getitem s2 ''BusinessBody'' ''BusinessBody'') (\<lambda>body.
     bind (add (BusinessDialog (italic_font font) body) s2) (\<lambda>s3.
     bind (getitem s3 ''BusinessBody'' ''BusinessBody'') (\<lambda>body'.
     add (BusinessFirst body') s3)))))"

definition BusinessStyleManager_init :: "string \<Rightarrow> stylesheet \<Rightarrow> exn + BusinessStyleManager" where
  "BusinessStyleManager_init font sample =
     bind (create_business_styles font sample) (\<lambda>s. Inr \<lparr>base_font = font, styles = s\<rparr>)"

definition get_style :: "BusinessStyleManager \<Rightarrow> string \<Rightarrow> exn + ParagraphStyle" where
  "get_style sm style_name =
     (if style_name \<in> set (map fst (styles sm)) then getitem (styles sm) style_name style_name
      else getitem (styles sm) ''BusinessBody'' ''BusinessBody'')"

section \<open>PDF generator\<close>

text \<open>
  The story handed to the document builder: \<open>Para\<close> is a \<open>Paragraph\<close> with its text and
  style, and the height of a \<open>Spacer\<close> is given in hundredths of an inch.
\<close>

datatype flowable = Para ustring ParagraphStyle | Spacer nat

record BusinessPDFGenerator =
  style_manager :: BusinessStyleManager
  generator_output_dir :: ustring

text \<open>
  \<open>Paragraph(text, style)\<close> parses the text as markup when the paragraph is created and
  raises \<open>ValueError\<close> for a text that does not parse (an unclosed tag, say). The parser is
  the rendering library's: \<open>markup_error\<close> gives the message of the error for such a text.
\<close>

definition Paragraph_init ::
    "(ustring \<Rightarrow> string option) \<Rightarrow> ustring \<Rightarrow> ParagraphStyle \<Rightarrow> exn + flowable" where
  "Paragraph_init markup_error t style =
     (case markup_error t of None \<Rightarrow> Inr (Para t style) | Some message \<Rightarrow> Inl (ValueError message))"

definition title_keywords :: "ustring list" where
  "title_keywords =
     [[0x63, 0x68, 0x1B0, 0x1A1, 0x6E, 0x67], [0x63, 0x68, 0x61, 0x70, 0x74, 0x65, 0x72],
      [0x70, 0x68, 0x1EA7, 0x6E]]"

definition is_chapter_title :: "unicode_lib \<Rightarrow> ustring \<Rightarrow> bool" where
  "is_chapter_title L t =
     (if t = [] then False else list_ex (\<lambda>keyword. contains keyword (str_lower L t)) title_keywords)"

text \<open>The loop of \<open>_build_story\<close> over the content blocks.\<close>

fun story_blocks ::
    "BusinessStyleManager \<Rightarrow> (ustring \<Rightarrow> string option) \<Rightarrow> block list \<Rightarrow>
     exn + flowable list" where
  "story_blocks sm markup_error [] = Inr []"
| "story_blocks sm markup_error (b # bs) =
     (if strip (content b) = [] then story_blocks sm markup_error bs
      else
        bind (if type b = Dialog then get_style sm ''BusinessDialog''
              else get_style sm ''BusinessBody'') (\<lambda>style.
        bind (Paragraph_init markup_error (content b) style) (\<lambda>para.
        bind (story_blocks sm markup_error bs) (\<lambda>rest.
        Inr (para # Spacer 5 # rest)))))"

definition build_story ::
    "unicode_lib \<Rightarrow> BusinessPDFGenerator \<Rightarrow> (ustring \<Rightarrow> string option) \<Rightarrow> ustring \<Rightarrow>
     block list \<Rightarrow> exn + flowable list" where
  "build_story L gen markup_error sheet_name content_blocks =
     bind (if is_chapter_title L sheet_name
           then bind (get_style (style_manager gen) ''BusinessChapter'') (\<lambda>style.
                bind (Paragraph_init markup_error sheet_name style) (\<lambda>title_para.
                Inr [title_para, Spacer 20]))
           else Inr []) (\<lambda>title.
     bind (story_blocks (style_manager gen) markup_error content_blocks) (\<lambda>body.
     Inr (title @ body)))"

text \<open>\<open>_sanitize_filename\<close>: the characters \<open><>:"/\|?*\<close> become \<open>_\<close>; at most 50 are kept.\<close>

definition sanitize_filename :: "ustring \<Rightarrow> ustring" where
  "sanitize_filename filename =
     (let safe_name =
            map (\<lambda>c. if c \<in> set [0x3C, 0x3E, 0x3A, 0x22, 0x2F, 0x5C, 0x7C, 0x3F, 0x2A] then 0x5F else c)
              filename
      in if length safe_name > 50 then take 50 safe_name else safe_name)"

text \<open>\<open>os.path.join\<close> of two components, on a POSIX system.\<close>

definition path_join :: "ustring \<Rightarrow> ustring \<Rightarrow> ustring" where
  "path_join a b =
     (if prefix [0x2F] b then b
      else if a = [] \<or> last a = 0x2F then a @ b
      else a @ [0x2F] @ b)"

text \<open>
  \<open>generate_sheet_pdf\<close>. Creating the document template and laying out and writing the
  document are the rendering library's work: \<open>doc_build\<close> says whether that raised for this
  file and story. Whatever raises inside the \<open>try\<close>, the function returns \<open>None\<close>.
\<close>

definition generate_sheet_pdf ::
    "unicode_lib \<Rightarrow> BusinessPDFGenerator \<Rightarrow> (ustring \<Rightarrow> string option) \<Rightarrow>
     (ustring \<Rightarrow> flowable list \<Rightarrow> exn option) \<Rightarrow> ustring \<Rightarrow> block list \<Rightarrow>
     exn + ustring option" where
  "generate_sheet_pdf L gen markup_error doc_build sheet_name content_blocks =
     (if content_blocks = [] then Inr None
      else
        let safe_filename = sanitize_filename sheet_name;
            output_path = path_join (generator_output_dir gen) (safe_filename @ ascii ''.pdf'')
        in except_Exception_None
             (bind (build_story L gen markup_error sheet_name content_blocks) (\<lambda>story.
              bind (raised (doc_build output_path story)) (\<lambda>_.
              Inr (Some output_path)))))"

section \<open>Thread manager\<close>

record ThreadManager =
  max_workers :: int

text \<open>\<open>ThreadManager.__init__\<close>, given the argument and what \<open>os.cpu_count()\<close> returns.\<close>

definition ThreadManager_init :: "int option \<Rightarrow> int option \<Rightarrow> ThreadManager" where
  "ThreadManager_init workers cpu_count =
     (case workers of
        None \<Rightarrow>
          \<lparr>max_workers = min (case cpu_count of None \<Rightarrow> 4 | Some n \<Rightarrow> if n = 0 then 4 else n) 6\<rparr>
      | Some n \<Rightarrow> \<lparr>max_workers = n\<rparr>)"

text \<open>
  The names that the class \<open>ThreadManager\<close> and its \<open>__init__\<close> define: two instance
  attributes and two methods. A name that is neither among them nor inherited from
  \<open>object\<close>, such as \<open>estimate_processing_time\<close>, raises \<open>AttributeError\<close> when looked up.
\<close>

definition ThreadManager_attributes :: "string list" where
  "ThreadManager_attributes =
     [''max_workers'', ''logger'', ''__init__'', ''process_sheets_parallel'']"

definition ThreadManager_getattr :: "string \<Rightarrow> exn + unit" where
  "ThreadManager_getattr attribute =
     (if attribute \<in> set ThreadManager_attributes then Inr () else Inl (AttributeError attribute))"

text \<open>
  What a call of \<open>process_sheets_parallel\<close> leaves behind: the \<open>results\<close> dictionary in
  insertion order, the size of the worker pool if one was created, and the sheet of every
  \<open>executor.submit\<close>, in order.
\<close>

record pool_run =
  results :: "(ustring \<times> ustring) list"
  pool_size :: "int option"
  submitted :: "ustring list"

text \<open>
  The loop over \<open>as_completed\<close>: \<open>future.result\<close> gives the task's value or raises what the
  task raised; a true value (a non-empty path) is stored under the sheet name.
\<close>

fun collect ::
    "(ustring \<times> (exn + ustring option)) list \<Rightarrow> (ustring \<times> ustring) list \<Rightarrow>
     exn + (ustring \<times> ustring) list" where
  "collect [] res = Inr res"
| "collect ((sheet_name, r) # futures) res =
     (case r of
        Inr (Some result) \<Rightarrow>
          if result \<noteq> [] then collect futures (AList.update sheet_name result res)
          else collect futures res
      | Inr None \<Rightarrow> collect futures res
      | Inl e \<Rightarrow> if is_Exception e then collect futures res else Inl e)"

text \<open>
  \<open>process_sheets_parallel\<close>. One task is submitted for every element of \<open>sheets\<close>; \<open>order\<close>
  is the order in which the tasks complete, a permutation of their submission indices.
  The executor refuses a pool size below 1 with \<open>ValueError\<close>.
\<close>

definition process_sheets_parallel ::
    "ThreadManager \<Rightarrow> ustring list \<Rightarrow> (ustring \<Rightarrow> exn + ustring option) \<Rightarrow> nat list \<Rightarrow>
     exn + pool_run" where
  "process_sheets_parallel tm sheets processor_func order =
     (if sheets = [] then Inr \<lparr>results = [], pool_size = None, submitted = []\<rparr>
      else if max_workers tm \<le> 0 then Inl (ValueError ''max_workers must be greater than 0'')
      else
        let future_to_sheet = map (\<lambda>sheet. (sheet, processor_func sheet)) sheets
        in bind (collect (map (\<lambda>i. future_to_sheet ! i) order) []) (\<lambda>res.
           Inr \<lparr>results = res, pool_size = Some (max_workers tm),
                submitted = map fst future_to_sheet\<rparr>))"

text \<open>
  \<open>process_single_sheet\<close>; \<open>read_column_d\<close> is the reader's method for this spreadsheet.
\<close>

definition process_single_sheet ::
    "unicode_lib \<Rightarrow> (ustring \<Rightarrow> exn + ustring list) \<Rightarrow> ContentProcessor \<Rightarrow> BusinessPDFGenerator \<Rightarrow>
     (ustring \<Rightarrow> string option) \<Rightarrow> (ustring \<Rightarrow> flowable list \<Rightarrow> exn option) \<Rightarrow> ustring \<Rightarrow>
     exn + ustring option" where
  "process_single_sheet L read_column_d content_processor pdf_generator markup_error doc_build
     sheet_name =
     except_Exception_None
       (bind (read_column_d sheet_name) (\<lambda>raw_content.
          if raw_content = [] then Inr None
          else
            let content_blocks = process_sheet_content L content_processor raw_content
            in if content_blocks = [] then Inr None
               else generate_sheet_pdf L pdf_generator markup_error doc_build sheet_name
                      content_blocks))"

text \<open>The file that \<open>generate_sheet_pdf\<close> writes for a sheet.\<close>

definition sheet_pdf_path :: "BusinessPDFGenerator \<Rightarrow> ustring \<Rightarrow> ustring" where
  "sheet_pdf_path gen sheet_name =
     path_join (generator_output_dir gen) (sanitize_filename sheet_name @ ascii ''.pdf'')"

text \<open>
  The failures inside a sheet task: the reader raises or returns no rows, no content block
  survives, or building the story or the document raises.
\<close>

definition task_fails ::
    "unicode_lib \<Rightarrow> (ustring \<Rightarrow> exn + ustring list) \<Rightarrow> ContentProcessor \<Rightarrow> BusinessPDFGenerator \<Rightarrow>
     (ustring \<Rightarrow> string option) \<Rightarrow> (ustring \<Rightarrow> flowable list \<Rightarrow> exn option) \<Rightarrow> ustring \<Rightarrow>
     bool" where
  "task_fails L reader cp gen markup build sheet_name =
     (case reader sheet_name of
        Inl e \<Rightarrow> True
      | Inr raw_content \<Rightarrow>
          raw_content = [] \<or> process_sheet_content L cp raw_content = [] \<or>
          (case build_story L gen markup sheet_name (process_sheet_content L cp raw_content) of
             Inl e \<Rightarrow> True
           | Inr story \<Rightarrow> build (sheet_pdf_path gen sheet_name) story \<noteq> None))"

text \<open>
  The path that a task stores for a sheet, if it stores one: the value of the task when
  that is a non-empty path.
\<close>

definition stored :: "(ustring \<Rightarrow> exn + ustring option) \<Rightarrow> ustring \<Rightarrow> ustring option" where
  "stored processor_func sheet =
     (case processor_func sheet of
        Inr (Some result) \<Rightarrow> if result \<noteq> [] then Some result else None
      | _ \<Rightarrow> None)"

text \<open>
  The pool size that the specification words describe, for comparison with the code:
  the least of the number of requested sheets, the available parallelism and the cap.
\<close>

definition spec_pool_size :: "int \<Rightarrow> int \<Rightarrow> int \<Rightarrow> int" where
  "spec_pool_size requested parallelism cap = min requested (min parallelism cap)"

section \<open>PDF merger\<close>

text \<open>The file system at the time of merging: which paths exist, and their sizes.\<close>

record filesystem =
  exists :: "ustring \<Rightarrow> bool"
  getsize :: "ustring \<Rightarrow> nat"

text \<open>
  The calls into PyPDF2, each by its outcome: \<open>None\<close> when the call returns, the exception
  when it raises. \<open>reader_pages\<close> is \<open>len(PdfReader(path).pages)\<close>.
\<close>

record PyPDF2 =
  append_outline_item :: "ustring \<Rightarrow> ustring \<Rightarrow> exn option"
  append_bookmark :: "ustring \<Rightarrow> ustring \<Rightarrow> exn option"
  append_plain :: "ustring \<Rightarrow> exn option"
  merger_write :: "ustring \<Rightarrow> exn option"
  reader_pages :: "ustring \<Rightarrow> exn + nat"

record BusinessPDFMerger =
  merger_output_dir :: ustring

text \<open>\<open>os.path.basename\<close> and \<open>os.path.splitext\<close>, on a POSIX system.\<close>

definition basename :: "ustring \<Rightarrow> ustring" where
  "basename p = rev (takeWhile (\<lambda>c. c \<noteq> 0x2F) (rev p))"

definition splitext_root :: "ustring \<Rightarrow> ustring" where
  "splitext_root p =
     (let ext = takeWhile (\<lambda>c. c \<noteq> 0x2E) (rev (basename p));
          dot = length p - length ext - 1;
          first = length p - length (basename p)
      in if length ext < length (basename p) \<and> list_ex (\<lambda>c. c \<noteq> 0x2E) (take (dot - first) (basename p))
         then take dot p else p)"

definition extract_chapter_name :: "ustring \<Rightarrow> ustring" where
  "extract_chapter_name pdf_file =
     replace [0x5F] [0x20] (splitext_root (basename pdf_file))"

text \<open>
  The merged document: its path and, in order, every file appended with the outline entry
  it was given.
\<close>

record ebook =
  ebook_file :: ustring
  chapters :: "(ustring \<times> ustring option) list"

definition append_file :: "PyPDF2 \<Rightarrow> bool \<Rightarrow> ustring \<Rightarrow> exn + ustring option" where
  "append_file lib add_bookmarks pdf_file =
     (let chapter_name = extract_chapter_name pdf_file in
      if add_bookmarks then
        (case append_outline_item lib pdf_file chapter_name of
           None \<Rightarrow> Inr (Some chapter_name)
         | Some (TypeError _) \<Rightarrow> bind (raised (append_bookmark lib pdf_file chapter_name)) (\<lambda>_.
             Inr (Some chapter_name))
         | Some e \<Rightarrow> Inl e)
      else bind (raised (append_plain lib pdf_file)) (\<lambda>_. Inr None))"

fun append_all :: "PyPDF2 \<Rightarrow> bool \<Rightarrow> ustring list \<Rightarrow> exn + (ustring \<times> ustring option) list" where
  "append_all lib add_bookmarks [] = Inr []"
| "append_all lib add_bookmarks (pdf_file # files) =
     bind (append_file lib add_bookmarks pdf_file) (\<lambda>mark.
     bind (append_all lib add_bookmarks files) (\<lambda>rest.
     Inr ((pdf_file, mark) # rest)))"

definition merge_sheets_to_ebook ::
    "BusinessPDFMerger \<Rightarrow> filesystem \<Rightarrow> PyPDF2 \<Rightarrow> ustring list \<Rightarrow> ustring \<Rightarrow> bool \<Rightarrow>
     exn + ebook option" where
  "merge_sheets_to_ebook merger fs lib pdf_files output_filename add_bookmarks =
     (if pdf_files = [] then Inr None
      else
        let existing_files = filter (exists fs) pdf_files in
        if existing_files = [] then Inr None
        else
          let output_path = path_join (merger_output_dir merger) output_filename
          in except_Exception_None
               (bind (append_all lib add_bookmarks existing_files) (\<lambda>appended.
                bind (raised (merger_write lib output_path)) (\<lambda>_.
                Inr (Some \<lparr>ebook_file = output_path, chapters = appended\<rparr>)))))"

definition validate_ebook :: "filesystem \<Rightarrow> ustring \<Rightarrow> bool" where
  "validate_ebook fs ebook_path \<longleftrightarrow> exists fs ebook_path \<and> getsize fs ebook_path > 0"

text \<open>
  The values of the statistics dictionary. \<open>Rounded n d\<close> is \<open>round(n / d, 2)\<close>, kept by its
  operands.
\<close>

datatype stat = Text ustring | Count nat | Rounded nat nat

definition get_ebook_stats ::
    "filesystem \<Rightarrow> PyPDF2 \<Rightarrow> ustring \<Rightarrow> exn + (string \<times> stat) list option" where
  "get_ebook_stats fs lib ebook_path =
     (if \<not> validate_ebook fs ebook_path then Inr None
      else
        (case reader_pages lib ebook_path of
           Inr num_pages \<Rightarrow>
             Inr (Some [(''file_path'', Text ebook_path),
                        (''file_size_kb'', Rounded (getsize fs ebook_path) 1024),
                        (''file_size_mb'', Rounded (getsize fs ebook_path) (1024 * 1024)),
                        (''num_pages'', Count num_pages),
                        (''title'', Text (ascii ''Vietnamese Business Ebook''))])
         | Inl e \<Rightarrow>
             if is_Exception e then
               Inr (Some [(''file_path'', Text ebook_path),
                          (''file_size_kb'', Rounded (getsize fs ebook_path) 1024),
                          (''num_pages'', Text (ascii ''Unknown''))])
             else Inl e))"

section \<open>Command line run\<close>

record args =
  arg_spreadsheet_id :: ustring
  arg_output :: ustring
  arg_sheets :: "ustring list option"
  arg_threads :: "int option"
  arg_verbose :: bool
  arg_no_bookmarks :: bool

text \<open>
  What a run meets outside the program: the environment and configuration files, the
  spreadsheet service, the rendering and PDF libraries, the file system, and for every
  number of submitted tasks the order in which they finish. \<open>env_max_threads\<close> is
  \<open>int(os.getenv('MAX_THREADS', '4'))\<close>, \<open>registered_font\<close> is the font name that
  \<open>_register_vietnamese_fonts\<close> returns, and \<open>reader_init\<close> and \<open>makedirs\<close> say whether
  creating the reader or an output directory raises.
\<close>

record world =
  env_max_threads :: int
  env_output_dir :: ustring
  credentials_exist :: bool
  unicode :: unicode_lib
  reader_init :: "exn option"
  registered_font :: string
  sample_stylesheet :: stylesheet
  makedirs :: "ustring \<Rightarrow> exn option"
  get_spreadsheet_info :: "exn + (ustring \<times> ustring list)"
  read_column_d :: "ustring \<Rightarrow> exn + ustring list"
  markup_error :: "ustring \<Rightarrow> string option"
  doc_build :: "ustring \<Rightarrow> flowable list \<Rightarrow> exn option"
  completion_order :: "nat \<Rightarrow> nat list"
  files :: filesystem
  pypdf :: PyPDF2

definition validate_setup :: "bool \<Rightarrow> ustring \<Rightarrow> bool" where
  "validate_setup credentials_found spreadsheet \<longleftrightarrow> credentials_found \<and> spreadsheet \<noteq> []"

text \<open>The lines of the success summary that depend on the run.\<close>

datatype line =
  Ebook ustring | Pages stat | File_size stat | Chapters nat | Success_rate nat nat | Title stat

record main_result =
  exit_code :: int
  merged :: "ebook option"
  printed :: "line list"

definition exit_with :: "int \<Rightarrow> main_result" where
  "exit_with code = \<lparr>exit_code = code, merged = None, printed = []\<rparr>"

text \<open>Lines 174 to 188: the sheets to process, or \<open>None\<close> where \<open>main\<close> returns 1.\<close>

definition sheets_to_process :: "ustring list option \<Rightarrow> ustring list \<Rightarrow> ustring list option" where
  "sheets_to_process requested sheet_names =
     (let chosen =
        (case requested of
           None \<Rightarrow> sheet_names
         | Some given \<Rightarrow>
             if given = [] then sheet_names
             else if set given - set sheet_names \<noteq> {}
             then filter (\<lambda>s. s \<in> set sheet_names) given
             else given)
      in if chosen = [] then None else Some (filter (\<lambda>s. s \<in> set sheet_names) chosen))"

text \<open>Lines 212 to 216: the files to merge, in the order of the sheets.\<close>

definition pdf_files_in_order :: "ustring list \<Rightarrow> (ustring \<times> ustring) list \<Rightarrow> ustring list" where
  "pdf_files_in_order to_process res =
     List.map_filter
       (\<lambda>sheet_name. case map_of res sheet_name of
            None \<Rightarrow> None
          | Some path \<Rightarrow> if path \<noteq> [] then Some path else None)
       to_process"

text \<open>
  Lines 249 to 267: the statistics and the summary. The lines are printed one after the
  other, so what was printed before a failing lookup stays printed.
\<close>

definition stat_item :: "(string \<times> stat) list option \<Rightarrow> string \<Rightarrow> exn + stat" where
  "stat_item ebook_stats key =
     (case ebook_stats of
        None \<Rightarrow> Inl (TypeError ''NoneType object is not subscriptable'')
      | Some d \<Rightarrow> getitem d key key)"

definition print_summary ::
    "(string \<times> stat) list option \<Rightarrow> ebook \<Rightarrow> nat \<Rightarrow> nat \<Rightarrow> nat \<Rightarrow> main_result" where
  "print_summary ebook_stats final n_files n_results n_sheets =
     (case stat_item ebook_stats ''num_pages'' of
        Inl e \<Rightarrow> \<lparr>exit_code = 1, merged = Some final, printed = [Ebook (ebook_file final)]\<rparr>
      | Inr pages \<Rightarrow>
          (case stat_item ebook_stats ''file_size_mb'' of
             Inl e \<Rightarrow>
               \<lparr>exit_code = 1, merged = Some final,
                printed = [Ebook (ebook_file final), Pages pages]\<rparr>
           | Inr mb \<Rightarrow>
               (case stat_item ebook_stats ''title'' of
                  Inl e \<Rightarrow>
                    \<lparr>exit_code = 1, merged = Some final,
                     printed = [Ebook (ebook_file final), Pages pages, File_size mb,
                                Chapters n_files, Success_rate n_results n_sheets]\<rparr>
                | Inr title \<Rightarrow>
                    \<lparr>exit_code = 0, merged = Some final,
                     printed = [Ebook (ebook_file final), Pages pages, File_size mb,
                                Chapters n_files, Success_rate n_results n_sheets, Title title]\<rparr>)))"

text \<open>
  Lines 243 to 267, after the merge has written \<open>final\<close>: validation, statistics and
  summary. An exception here ends in one of the two handlers, which both return 1.
\<close>

definition report :: "world \<Rightarrow> ebook \<Rightarrow> nat \<Rightarrow> nat \<Rightarrow> nat \<Rightarrow> main_result" where
  "report w final n_files n_results n_sheets =
     (if \<not> validate_ebook (files w) (ebook_file final)
      then \<lparr>exit_code = 1, merged = Some final, printed = []\<rparr>
      else
        (case get_ebook_stats (files w) (pypdf w) (ebook_file final) of
           Inl e \<Rightarrow> \<lparr>exit_code = 1, merged = Some final, printed = []\<rparr>
         | Inr ebook_stats \<Rightarrow> print_summary ebook_stats final n_files n_results n_sheets))"

text \<open>
  Lines 190 to 241, for the sheets to process: the time estimate, the parallel run, the
  files in order and the merge. The result is the merged ebook with the three counts of
  the summary, or the exit code where \<open>main\<close> returns before.
\<close>

datatype merge_stage = Exit int | Merged ebook nat nat nat

definition process_and_merge ::
    "args \<Rightarrow> world \<Rightarrow> ThreadManager \<Rightarrow> BusinessPDFGenerator \<Rightarrow> BusinessPDFMerger \<Rightarrow>
     ustring list \<Rightarrow> merge_stage" where
  "process_and_merge a w thread_manager pdf_generator pdf_merger to_process =
     (case (if length to_process > 1 then ThreadManager_getattr ''estimate_processing_time''
            else Inr ()) of
        Inl e \<Rightarrow> Exit 1
      | Inr _ \<Rightarrow>
          (case process_sheets_parallel thread_manager to_process
                  (process_single_sheet (unicode w) (read_column_d w) ContentProcessor_init
                     pdf_generator (markup_error w) (doc_build w))
                  (completion_order w (length to_process)) of
             Inl e \<Rightarrow> Exit 1
           | Inr run \<Rightarrow>
               if results run = [] then Exit 1
               else
                 let pdf_files = pdf_files_in_order to_process (results run) in
                 if pdf_files = [] then Exit 1
                 else
                   (case merge_sheets_to_ebook pdf_merger (files w) (pypdf w) pdf_files (arg_output a)
                           (\<not> arg_no_bookmarks a) of
                      Inl e \<Rightarrow> Exit 1
                    | Inr None \<Rightarrow> Exit 1
                    | Inr (Some final) \<Rightarrow>
                        Merged final (length pdf_files) (length (results run))
                          (length to_process))))"

text \<open>
  Lines 142 to 188: configuration, validation, the components and the sheets to process,
  then the stage above.
\<close>

definition run_until_merge :: "args \<Rightarrow> world \<Rightarrow> merge_stage" where
  "run_until_merge a w =
     (let max_threads =
        (case arg_threads a of
           None \<Rightarrow> env_max_threads w
         | Some n \<Rightarrow> if n \<noteq> 0 then n else env_max_threads w)
      in
      if \<not> validate_setup (credentials_exist w) (arg_spreadsheet_id a) then Exit 1
      else
        (case bind (raised (reader_init w)) (\<lambda>_.
              bind (BusinessStyleManager_init (registered_font w) (sample_stylesheet w)) (\<lambda>sm.
              bind (raised (makedirs w (path_join (env_output_dir w) (ascii ''temp'')))) (\<lambda>_.
              bind (raised (makedirs w (path_join (env_output_dir w) (ascii ''final'')))) (\<lambda>_.
              bind (get_spreadsheet_info w) (\<lambda>info. Inr (sm, info)))))) of
           Inl e \<Rightarrow> Exit 1
         | Inr (sm, title, sheet_names) \<Rightarrow>
             (case sheets_to_process (arg_sheets a) sheet_names of
                None \<Rightarrow> Exit 1
              | Some to_process \<Rightarrow>
                  process_and_merge a w (ThreadManager_init (Some max_threads) None)
                    \<lparr>style_manager = sm,
                     generator_output_dir = path_join (env_output_dir w) (ascii ''temp'')\<rparr>
                    \<lparr>merger_output_dir = path_join (env_output_dir w) (ascii ''final'')\<rparr>
                    to_process)))"

definition main :: "args \<Rightarrow> world \<Rightarrow> main_result" where
  "main a w =
     (case run_until_merge a w of
        Exit code \<Rightarrow> exit_with code
      | Merged final n_files n_results n_sheets \<Rightarrow> report w final n_files n_results n_sheets)"

section \<open>An example run\<close>

text \<open>
  A spreadsheet with the sheets A, B and C, each with one row long enough to keep and one
  too short; every library call succeeds (the rows are plain text, which parses as
  paragraph markup), and the tasks finish in the order B, C, A.
\<close>

definition demo_rows :: "ustring list" where
  "demo_rows = [ascii ''The first row of the sheet.'', ascii ''short'']"

definition demo_world :: world where
  "demo_world =
     \<lparr>env_max_threads = 4, env_output_dir = ascii ''output'', credentials_exist = True,
      unicode = ascii_lib, reader_init = None, registered_font = ''Helvetica'',
      sample_stylesheet = [(''Normal'', ParagraphStyle_init ''Normal'' None [])],
      makedirs = (\<lambda>_. None),
      get_spreadsheet_info = Inr (ascii ''Book'', [ascii ''A'', ascii ''B'', ascii ''C'']),
      read_column_d = (\<lambda>_. Inr demo_rows), markup_error = (\<lambda>_. None),
      doc_build = (\<lambda>_ _. None),
      completion_order = (\<lambda>n. rotate1 [0..<n]),
      files = \<lparr>exists = (\<lambda>_. True), getsize = (\<lambda>_. 2048)\<rparr>,
      pypdf = \<lparr>append_outline_item = (\<lambda>_ _. None), append_bookmark = (\<lambda>_ _. None),
               append_plain = (\<lambda>_. None), merger_write = (\<lambda>_. None),
               reader_pages = (\<lambda>_. Inr 3)\<rparr>\<rparr>"

definition demo_args :: args where
  "demo_args =
     \<lparr>arg_spreadsheet_id = ascii ''1BxiMVs'', arg_output = ascii ''vietnamese-ebook.pdf'',
      arg_sheets = None, arg_threads = None, arg_verbose = False, arg_no_bookmarks = False\<rparr>"

text \<open>The same spreadsheet when the reader yields no rows for sheet B.\<close>

definition demo_world_B_empty :: world where
  "demo_world_B_empty =
     demo_world\<lparr>read_column_d := (\<lambda>s. if s = ascii ''B'' then Inr [] else Inr demo_rows)\<rparr>"

text \<open>The same world when reading the pages of a PDF file raises.\<close>

definition demo_world_unreadable :: world where
  "demo_world_unreadable =
     demo_world\<lparr>pypdf := (pypdf demo_world)\<lparr>reader_pages := (\<lambda>_. Inl (OtherError ''PdfReadError''))\<rparr>\<rparr>"

text \<open>The components of \<open>main\<close> in that world.\<close>

definition demo_styles :: BusinessStyleManager where
  "demo_styles =
     (case BusinessStyleManager_init (registered_font demo_world) (sample_stylesheet demo_world) of
        Inr sm \<Rightarrow> sm
      | Inl e \<Rightarrow> \<lparr>base_font = registered_font demo_world, styles = sample_stylesheet demo_world\<rparr>)"

definition demo_generator :: BusinessPDFGenerator where
  "demo_generator = \<lparr>style_manager = demo_styles, generator_output_dir = ascii ''output/temp''\<rparr>"

definition demo_task :: "world \<Rightarrow> ustring \<Rightarrow> exn + ustring option" where
  "demo_task w =
     process_single_sheet (unicode w) (read_column_d w) ContentProcessor_init demo_generator
       (markup_error w) (doc_build w)"

section \<open>Facts about the text functions\<close>


lemma contains_sublist: "contains sub s \<longleftrightarrow> sublist sub s"
  by (induction s) (auto simp: sublist_Cons_right)

lemma strip_Nil_iff: "strip s = [] \<longleftrightarrow> (\<forall>c \<in> set s. isspace c)"
proof
  assume "strip s = []"
  then have "\<forall>x \<in> set (dropWhile isspace s). isspace x"
    by (simp add: strip_def dropWhile_eq_Nil_conv)
  then have "dropWhile isspace s = []"
    using hd_dropWhile [of isspace s] by (cases "dropWhile isspace s") auto
  then show "\<forall>c \<in> set s. isspace c" by (simp add: dropWhile_eq_Nil_conv)
next
  assume "\<forall>c \<in> set s. isspace c"
  then have d: "dropWhile isspace s = []" by simp
  show "strip s = []" unfolding strip_def d by simp
qed

lemma sublist_strip: "sublist (strip s) s"
proof -
  let ?d = "dropWhile isspace s"
  have "rev ?d = takeWhile isspace (rev ?d) @ dropWhile isspace (rev ?d)" by simp
  then have "?d = strip s @ rev (takeWhile isspace (rev ?d))"
    unfolding strip_def by (metis rev_append rev_rev_ident)
  moreover have "s = takeWhile isspace s @ ?d" by simp
  ultimately have "s = takeWhile isspace s @ strip s @ rev (takeWhile isspace (rev ?d))" by simp
  then show ?thesis unfolding sublist_def by blast
qed

lemma strip_strip: "strip (strip s) = strip s"
proof (cases "strip s = []")
  case True
  show ?thesis unfolding True by (simp add: strip_def)
next
  case False
  let ?d = "dropWhile isspace s"
  let ?e = "dropWhile isspace (rev ?d)"
  have e: "?e \<noteq> []" using False by (simp add: strip_def)
  then have d: "?d \<noteq> []" by (auto dest: set_dropWhileD)
  have "\<not> isspace (hd ?e)" using e hd_dropWhile by blast
  then have 1: "dropWhile isspace ?e = ?e" using e by (cases ?e) auto
  have "\<not> isspace (hd ?d)" using d hd_dropWhile by blast
  moreover have "last ?e = last (rev ?d)"
    using e by (metis append_is_Nil_conv last_appendR takeWhile_dropWhile_id)
  ultimately have "\<not> isspace (last ?e)" using d by (simp add: last_rev)
  then have "\<not> isspace (hd (rev ?e))" using e by (simp add: hd_rev)
  then have 2: "dropWhile isspace (rev ?e) = rev ?e" using e by (cases "rev ?e") auto
  show ?thesis unfolding strip_def by (simp add: 1 2)
qed

lemma replace_absent:
  "old \<noteq> [] \<Longrightarrow> \<not> sublist old s \<Longrightarrow> replace old new s = s"
proof (induction old new s rule: replace.induct)
  case (1 old new)
  then show ?case by simp
next
  case (2 old new c cs)
  then show ?case by (auto simp: sublist_Cons_right)
qed

lemma sublist_set: "sublist xs ys \<Longrightarrow> set xs \<subseteq> set ys"
  by (auto simp: sublist_def)

lemma replace_foreign:
  "x \<in> set old \<Longrightarrow> x \<notin> set s \<Longrightarrow> replace old new s = s"
  by (rule replace_absent) (auto dest: sublist_set)

lemma set_replace: "old \<noteq> [] \<Longrightarrow> set (replace old new s) \<subseteq> set s \<union> set new"
proof (induction old new s rule: replace.induct)
  case (1 old new)
  then show ?case by simp
next
  case (2 old new c cs)
  have "set (drop (length old) (c # cs)) \<subseteq> set (c # cs)" by (rule set_drop_subset)
  with 2 show ?case by (auto split: if_splits)
qed

lemma replace_same: "replace [a] [a] s = s"
  by (induction s) auto

lemma prefix_replace_back:
  "old \<noteq> [] \<Longrightarrow> e \<notin> set p \<Longrightarrow> prefix p (replace old [e] s) \<Longrightarrow> prefix p s"
proof (induction old "[e]" s arbitrary: p rule: replace.induct)
  case (1 old)
  then show ?case by simp
next
  case (2 old c cs)
  show ?case
  proof (cases p)
    case Nil
    then show ?thesis by simp
  next
    case (Cons x p')
    show ?thesis
    proof (cases "prefix old (c # cs)")
      case True
      with 2 Cons show ?thesis by auto
    next
      case False
      with 2 Cons show ?thesis by auto
    qed
  qed
qed

lemma sublist_replace_back:
  "old \<noteq> [] \<Longrightarrow> e \<notin> set q \<Longrightarrow> sublist q (replace old [e] s) \<Longrightarrow> sublist q s"
proof (induction old "[e]" s rule: replace.induct)
  case (1 old)
  then show ?case by simp
next
  case (2 old c cs)
  show ?case
  proof (cases "prefix old (c # cs)")
    case True
    with 2 have "sublist q (e # replace old [e] (drop (length old) (c # cs)))" by simp
    then have "prefix q (e # replace old [e] (drop (length old) (c # cs))) \<or>
        sublist q (replace old [e] (drop (length old) (c # cs)))"
      by (simp add: sublist_Cons_right)
    then show ?thesis
    proof
      assume "prefix q (e # replace old [e] (drop (length old) (c # cs)))"
      then have "q = []" using 2(4) by (cases q) auto
      then show ?thesis by simp
    next
      assume "sublist q (replace old [e] (drop (length old) (c # cs)))"
      then have "sublist q (drop (length old) (c # cs))" using 2 True by simp
      then show ?thesis using sublist_drop sublist_order.order_trans by blast
    qed
  next
    case False
    with 2 have "sublist q (c # replace old [e] cs)" by simp
    then have "prefix q (c # replace old [e] cs) \<or> sublist q (replace old [e] cs)"
      by (simp add: sublist_Cons_right)
    then show ?thesis
    proof
      assume "prefix q (c # replace old [e] cs)"
      then have "prefix q (c # cs)"
        using prefix_replace_back [OF 2(3), of e "tl q" cs] 2(4)
        by (cases q) auto
      then show ?thesis by (simp add: sublist_Cons_right)
    next
      assume "sublist q (replace old [e] cs)"
      then show ?thesis using 2 False by (simp add: sublist_Cons_right)
    qed
  qed
qed

lemma replace_removes:
  "old \<noteq> [] \<Longrightarrow> e \<notin> set old \<Longrightarrow> \<not> sublist old (replace old [e] s)"
proof (induction old "[e]" s rule: replace.induct)
  case (1 old)
  then show ?case by simp
next
  case (2 old c cs)
  show ?case
  proof (cases "prefix old (c # cs)")
    case True
    have "\<not> prefix old (e # replace old [e] (drop (length old) (c # cs)))"
      using 2(3,4) by (cases old) auto
    then show ?thesis using 2 True by (simp add: sublist_Cons_right)
  next
    case False
    have "\<not> prefix old (c # replace old [e] cs)"
    proof
      assume "prefix old (c # replace old [e] cs)"
      then have "prefix old (c # cs)"
        using prefix_replace_back [OF 2(3), of e "tl old" cs] 2(4)
        by (cases old) auto
      with False show False by simp
    qed
    then show ?thesis using 2 False by (simp add: sublist_Cons_right)
  qed
qed

lemma collapse_head:
  "prefix [a] (replace [a, a] [a] s) \<Longrightarrow> prefix [a] s"
  by (cases s) (auto split: if_splits)

lemma collapse_spaces:
  "\<not> sublist [a, a, a] s \<Longrightarrow> \<not> sublist [a, a] (replace [a, a] [a] s)"
proof (induction "[a, a]" "[a]" s rule: replace.induct)
  case 1
  then show ?case by simp
next
  case (2 c cs)
  show ?case
  proof (cases "prefix [a, a] (c # cs)")
    case True
    then obtain r where cs: "c = a" "cs = a # r" by (cases cs) auto
    have nr: "\<not> prefix [a] r" using "2.prems" cs by (auto simp: sublist_Cons_right)
    have "\<not> sublist [a, a, a] r" using "2.prems" cs by (auto simp: sublist_Cons_right)
    then have ih: "\<not> sublist [a, a] (replace [a, a] [a] r)" using "2.hyps"(1) True cs by simp
    have "\<not> prefix [a] (replace [a, a] [a] r)" using nr collapse_head by blast
    then have "\<not> prefix [a, a] (a # replace [a, a] [a] r)" by auto
    then show ?thesis using ih cs by (simp add: sublist_Cons_right)
  next
    case False
    have "\<not> sublist [a, a, a] cs" using "2.prems" by (auto simp: sublist_Cons_right)
    then have ih: "\<not> sublist [a, a] (replace [a, a] [a] cs)" using "2.hyps"(2) False by simp
    have "\<not> prefix [a, a] (c # replace [a, a] [a] cs)"
    proof
      assume "prefix [a, a] (c # replace [a, a] [a] cs)"
      then have "c = a" "prefix [a] (replace [a, a] [a] cs)" by auto
      then have "prefix [a, a] (c # cs)" using collapse_head by auto
      with False show False by blast
    qed
    moreover have "replace [a, a] [a] (c # cs) = c # replace [a, a] [a] cs"
      using False by auto
    ultimately show ?thesis using ih by (simp only: sublist_Cons_right) blast
  qed
qed

lemma clean_unfold:
  "s \<noteq> [] \<Longrightarrow> clean_vietnamese_text L s =
     strip (replace [0x20, 0x20] [0x20] (replace [0x2E, 0x2E, 0x2E] [0x2026]
       (replace [0x2013] [0x2014] (replace triple_quoted_key [0x27]
          (replace [0x22] [0x22] (normalize_NFC L s))))))"
  by (simp add: clean_vietnamese_text_def replacements_def)

lemma clean_Nil: "clean_vietnamese_text L [] = []"
  by (simp add: clean_vietnamese_text_def)

lemma key_has_spaces: "sublist [0x20, 0x20] triple_quoted_key"
proof -
  have "triple_quoted_key = [0x3A, 0x20, 0x22, 0x27, 0x22, 0x2C, 0x0A] @ [0x20, 0x20] @ replicate 10 0x20"
    by (simp add: triple_quoted_key_def eval_nat_numeral)
  then show ?thesis unfolding sublist_def by blast
qed

lemma clean_blank:
  assumes "nfc_keeps_blank L" and "strip raw = []"
  shows "clean_vietnamese_text L raw = []"
proof -
  let ?t = "normalize_NFC L raw"
  have ws: "\<forall>c \<in> set ?t. isspace c"
    using assms by (simp add: nfc_keeps_blank_def flip: strip_Nil_iff)
  have n: "\<not> isspace 0x22" "\<not> isspace 0x3A" "\<not> isspace 0x2013" "\<not> isspace 0x2E" "isspace 0x20"
    by (simp_all add: isspace_def)
  have r1: "replace [0x22] [0x22] ?t = ?t"
    by (rule replace_foreign [of "0x22"]) (use ws n in auto)
  have r2: "replace triple_quoted_key [0x27] ?t = ?t"
    by (rule replace_foreign [of "0x3A"]) (use ws n in \<open>auto simp: triple_quoted_key_def\<close>)
  have r3: "replace [0x2013] [0x2014] ?t = ?t"
    by (rule replace_foreign [of "0x2013"]) (use ws n in auto)
  have r4: "replace [0x2E, 0x2E, 0x2E] [0x2026] ?t = ?t"
    by (rule replace_foreign [of "0x2E"]) (use ws n in auto)
  have "set (replace [0x20, 0x20] [0x20] ?t) \<subseteq> set ?t \<union> {0x20}"
    using set_replace [of "[0x20, 0x20]" "[0x20]" ?t] by simp
  then have "\<forall>c \<in> set (replace [0x20, 0x20] [0x20] ?t). isspace c"
    using ws n by auto
  then have "strip (replace [0x20, 0x20] [0x20] ?t) = []"
    by (simp add: strip_Nil_iff)
  then show ?thesis
    by (simp add: clean_vietnamese_text_def replacements_def r1 r2 r3 r4)
qed

lemma nfc_keeps_blank_ascii: "nfc_keeps_blank ascii_lib"
  by (simp add: nfc_keeps_blank_def ascii_lib_def)

lemmas eval_text = clean_vietnamese_text_def ascii_lib_def ascii_def replacements_def
  triple_quoted_key_def strip_def isspace_def

lemma process_rows_index_ge: "b \<in> set (process_rows L cp k rows) \<Longrightarrow> k \<le> original_index b \<and> original_index b < k + length rows"
  by (induction rows arbitrary: k) (fastforce simp: Let_def split: if_splits)+

lemma process_rows_dropped:
  "i < length rows \<Longrightarrow> int (length (clean_vietnamese_text L (rows ! i))) < paragraph_min_length cp \<Longrightarrow>
   b \<in> set (process_rows L cp k rows) \<Longrightarrow> original_index b \<noteq> k + i"
proof (induction rows arbitrary: k i)
  case Nil
  then show ?case by simp
next
  case (Cons r rows)
  show ?case
  proof (cases i)
    case 0
    with Cons.prems have "b \<in> set (process_rows L cp (Suc k) rows)"
      by (auto simp: Let_def split: if_splits)
    then show ?thesis using 0 process_rows_index_ge by fastforce
  next
    case (Suc j)
    from Cons.prems have "b \<in> set (process_rows L cp (Suc k) rows) \<or> original_index b = k"
      by (auto simp: Let_def split: if_splits)
    then show ?thesis
    proof
      assume "b \<in> set (process_rows L cp (Suc k) rows)"
      then show ?thesis using Cons.IH [of j "Suc k"] Cons.prems Suc by simp
    next
      assume "original_index b = k"
      then show ?thesis using Suc by simp
    qed
  qed
qed

lemma process_rows_kept:
  "i < length rows \<Longrightarrow> rows ! i \<noteq> [] \<Longrightarrow> strip (rows ! i) \<noteq> [] \<Longrightarrow>
   \<not> int (length (clean_vietnamese_text L (rows ! i))) < paragraph_min_length cp \<Longrightarrow>
   make_block L (k + i) (rows ! i) \<in> set (process_rows L cp k rows)"
proof (induction rows arbitrary: k i)
  case Nil
  then show ?case by simp
next
  case (Cons r rows)
  show ?case
  proof (cases i)
    case 0
    with Cons.prems show ?thesis by (simp add: Let_def make_block_def)
  next
    case (Suc j)
    with Cons.prems Cons.IH [of j "Suc k"] show ?thesis by (simp add: Let_def)
  qed
qed

section \<open>Content processor: the claims\<close>




text \<open>
  C7. A row whose cleaned text is shorter than the minimum length gives no block (and the
  function has no error to report: it returns the list of blocks). A row whose cleaned
  text has exactly the minimum length gives a block with that text. The minimum is
  positive, 10 by default.
\<close>

theorem short_rows_dropped:
  assumes "i < length rows"
  shows "(int (length (clean_vietnamese_text L (rows ! i))) < paragraph_min_length cp \<longrightarrow>
            (\<forall>b \<in> set (process_sheet_content L cp rows). original_index b \<noteq> i)) \<and>
         (nfc_keeps_blank L \<and> 0 < paragraph_min_length cp \<and>
          int (length (clean_vietnamese_text L (rows ! i))) = paragraph_min_length cp \<longrightarrow>
            (\<exists>b \<in> set (process_sheet_content L cp rows).
               original_index b = i \<and> content b = clean_vietnamese_text L (rows ! i)))"
proof (intro conjI impI)
  assume "int (length (clean_vietnamese_text L (rows ! i))) < paragraph_min_length cp"
  then show "\<forall>b \<in> set (process_sheet_content L cp rows). original_index b \<noteq> i"
    using process_rows_dropped [OF assms, of L cp _ 0]
    by (auto simp: process_sheet_content_def)
next
  assume a: "nfc_keeps_blank L \<and> 0 < paragraph_min_length cp \<and>
    int (length (clean_vietnamese_text L (rows ! i))) = paragraph_min_length cp"
  then have ne: "clean_vietnamese_text L (rows ! i) \<noteq> []" by auto
  then have "rows ! i \<noteq> []" by (auto simp: clean_vietnamese_text_def)
  moreover have "strip (rows ! i) \<noteq> []" using a ne clean_blank by blast
  ultimately have "make_block L (0 + i) (rows ! i) \<in> set (process_rows L cp 0 rows)"
    using a by (intro process_rows_kept [OF assms]) auto
  moreover have "rows \<noteq> []" using assms by auto
  ultimately show "\<exists>b \<in> set (process_sheet_content L cp rows).
      original_index b = i \<and> content b = clean_vietnamese_text L (rows ! i)"
    by (auto simp: process_sheet_content_def make_block_def intro!: bexI [of _ "make_block L i (rows ! i)"])
qed

text \<open>
  Witness for C7, with the default minimum of 10: a row of 9 characters is dropped and a
  row of 10 characters is kept.
\<close>

theorem short_rows_dropped_witness:
  "0 \<notin> original_index ` set (process_sheet_content ascii_lib ContentProcessor_init
       [ascii ''too short'', ascii ''0123456789'']) \<and>
   (1, ascii ''0123456789'') \<in> (\<lambda>b. (original_index b, content b)) ` set (process_sheet_content ascii_lib ContentProcessor_init
       [ascii ''too short'', ascii ''0123456789''])"
proof -
  let ?rows = "[ascii ''too short'', ascii ''0123456789'']"
  have c0: "clean_vietnamese_text ascii_lib (?rows ! 0) = ascii ''too short''"
    by (simp add: eval_text)
  have c1: "clean_vietnamese_text ascii_lib (?rows ! 1) = ascii ''0123456789''"
    by (simp add: eval_text)
  have l0: "int (length (clean_vietnamese_text ascii_lib (?rows ! 0))) < paragraph_min_length ContentProcessor_init"
    unfolding c0 by (simp add: ascii_def ContentProcessor_init_def)
  have l1: "int (length (clean_vietnamese_text ascii_lib (?rows ! 1))) = paragraph_min_length ContentProcessor_init"
    unfolding c1 by (simp add: ascii_def ContentProcessor_init_def)
  have p: "0 < paragraph_min_length ContentProcessor_init" by (simp add: ContentProcessor_init_def)
  have i0: "0 < length ?rows" and i1: "1 < length ?rows" by simp_all
  from short_rows_dropped [OF i0, of ascii_lib ContentProcessor_init] l0
  have A: "\<forall>b \<in> set (process_sheet_content ascii_lib ContentProcessor_init ?rows). original_index b \<noteq> 0"
    by blast
  from short_rows_dropped [OF i1, of ascii_lib ContentProcessor_init] l1 p nfc_keeps_blank_ascii
  have "\<exists>b \<in> set (process_sheet_content ascii_lib ContentProcessor_init ?rows).
      original_index b = 1 \<and> content b = clean_vietnamese_text ascii_lib (?rows ! 1)"
    by blast
  then have B: "(1, ascii ''0123456789'') \<in> (\<lambda>b. (original_index b, content b)) ` set (process_sheet_content ascii_lib ContentProcessor_init ?rows)"
    unfolding c1 by force
  from A have "0 \<notin> original_index ` set (process_sheet_content ascii_lib ContentProcessor_init ?rows)"
    by force
  with B show ?thesis by blast
qed

text \<open>
  C5, as stated, fails: one pass of \<open>replace\<close> takes a run of three spaces to two, and a
  second cleaning takes the two to one.
\<close>

theorem clean_not_idempotent:
  "clean_vietnamese_text ascii_lib (clean_vietnamese_text ascii_lib (ascii ''one   two''))
     \<noteq> clean_vietnamese_text ascii_lib (ascii ''one   two'')"
  by (simp add: eval_text)

text \<open>
  C5, amended. When the normalised input has no run of three or more spaces, and the
  cleaned text is in normal form, cleaning the cleaned text gives it back unchanged: no
  entry of the replacement table applies to it.
\<close>

theorem clean_idempotent_without_space_runs:
  assumes "\<not> contains [0x20, 0x20, 0x20] (normalize_NFC L s)"
    and "normalize_NFC L (clean_vietnamese_text L s) = clean_vietnamese_text L s"
  shows "clean_vietnamese_text L (clean_vietnamese_text L s) = clean_vietnamese_text L s"
proof (cases "s = [] \<or> clean_vietnamese_text L s = []")
  case True
  then show ?thesis by (auto simp: clean_Nil)
next
  case False
  define t1 where "t1 = replace [0x22] [0x22] (normalize_NFC L s)"
  define t2 where "t2 = replace triple_quoted_key [0x27] t1"
  define t3 where "t3 = replace [0x2013] [0x2014] t2"
  define t4 where "t4 = replace [0x2E, 0x2E, 0x2E] [0x2026] t3"
  define t5 where "t5 = replace [0x20, 0x20] [0x20] t4"
  define c where "c = clean_vietnamese_text L s"
  have c: "c = strip t5"
    using False by (simp add: c_def clean_unfold t1_def t2_def t3_def t4_def t5_def)
  have k: "triple_quoted_key \<noteq> []" by (simp add: triple_quoted_key_def)
  have s1: "\<not> sublist [0x20, 0x20, 0x20] t1"
    using assms(1) by (simp add: t1_def replace_same contains_sublist)
  have s2: "\<not> sublist [0x20, 0x20, 0x20] t2"
    unfolding t2_def using s1 sublist_replace_back [OF k, of "0x27" "[0x20, 0x20, 0x20]" t1] by auto
  have s3: "\<not> sublist [0x20, 0x20, 0x20] t3"
    unfolding t3_def using s2 sublist_replace_back [of "[0x2013]" "0x2014" "[0x20, 0x20, 0x20]" t2] by auto
  have e3: "\<not> sublist [0x2013] t3"
    unfolding t3_def using replace_removes [of "[0x2013]" "0x2014" t2] by simp
  have s4: "\<not> sublist [0x20, 0x20, 0x20] t4"
    unfolding t4_def using s3 sublist_replace_back [of "[0x2E, 0x2E, 0x2E]" "0x2026" "[0x20, 0x20, 0x20]" t3] by auto
  have e4: "\<not> sublist [0x2013] t4"
    unfolding t4_def using e3 sublist_replace_back [of "[0x2E, 0x2E, 0x2E]" "0x2026" "[0x2013]" t3] by auto
  have d4: "\<not> sublist [0x2E, 0x2E, 0x2E] t4"
    unfolding t4_def using replace_removes [of "[0x2E, 0x2E, 0x2E]" "0x2026" t3] by simp
  have s5: "\<not> sublist [0x20, 0x20] t5"
    unfolding t5_def using s4 by (rule collapse_spaces)
  have e5: "\<not> sublist [0x2013] t5"
    unfolding t5_def using e4 sublist_replace_back [of "[0x20, 0x20]" "0x20" "[0x2013]" t4] by auto
  have d5: "\<not> sublist [0x2E, 0x2E, 0x2E] t5"
    unfolding t5_def using d4 sublist_replace_back [of "[0x20, 0x20]" "0x20" "[0x2E, 0x2E, 0x2E]" t4] by auto
  have sub: "sublist c t5" unfolding c by (rule sublist_strip)
  have sc: "\<not> sublist [0x20, 0x20] c" using s5 sub sublist_order.order_trans by blast
  have ec: "\<not> sublist [0x2013] c" using e5 sub sublist_order.order_trans by blast
  have dc: "\<not> sublist [0x2E, 0x2E, 0x2E] c" using d5 sub sublist_order.order_trans by blast
  have kc: "\<not> sublist triple_quoted_key c"
    using sc key_has_spaces sublist_order.order_trans by blast
  have r2: "replace triple_quoted_key [0x27] c = c" using k kc by (rule replace_absent)
  have r3: "replace [0x2013] [0x2014] c = c" using ec by (intro replace_absent) auto
  have r4: "replace [0x2E, 0x2E, 0x2E] [0x2026] c = c" using dc by (intro replace_absent) auto
  have r5: "replace [0x20, 0x20] [0x20] c = c" using sc by (intro replace_absent) auto
  have "c \<noteq> []" using False by (simp add: c_def)
  then have "clean_vietnamese_text L c = strip c"
    using assms(2) by (simp add: clean_unfold replace_same r2 r3 r4 r5 flip: c_def)
  also have "\<dots> = c" unfolding c by (rule strip_strip)
  finally show ?thesis by (simp add: c_def)
qed

text \<open>Witness for C5: a text with an ellipsis and a double space.\<close>

theorem clean_idempotent_without_space_runs_witness:
  "\<not> contains [0x20, 0x20, 0x20] (normalize_NFC ascii_lib (ascii ''He said...  wait - no''))
   \<and> clean_vietnamese_text ascii_lib (ascii ''He said...  wait - no'') = ascii ''He said'' @ [0x2026] @ ascii '' wait - no''
   \<and> clean_vietnamese_text ascii_lib (ascii ''He said'' @ [0x2026] @ ascii '' wait - no'') = ascii ''He said'' @ [0x2026] @ ascii '' wait - no''"
proof -
  have a: "\<not> contains [0x20, 0x20, 0x20] (normalize_NFC ascii_lib (ascii ''He said...  wait - no''))"
    by (simp add: ascii_lib_def ascii_def)
  have c: "clean_vietnamese_text ascii_lib (ascii ''He said...  wait - no'') = ascii ''He said'' @ [0x2026] @ ascii '' wait - no''"
    by (simp add: eval_text)
  have b: "normalize_NFC ascii_lib (clean_vietnamese_text ascii_lib (ascii ''He said...  wait - no''))
      = clean_vietnamese_text ascii_lib (ascii ''He said...  wait - no'')"
    by (simp add: ascii_lib_def)
  from clean_idempotent_without_space_runs [OF a b] a c show ?thesis by simp
qed

section \<open>Facts about the scheduler and the merger\<close>

lemma collect_returns:
  "\<forall>(s, r) \<in> set fs. \<forall>e. r = Inl e \<longrightarrow> is_Exception e \<Longrightarrow> \<exists>res'. collect fs res = Inr res'"
proof (induction fs arbitrary: res)
  case Nil
  then show ?case by simp
next
  case (Cons x fs)
  then show ?case by (cases x) (auto split: sum.splits option.splits)
qed

lemma collect_distinct:
  "collect fs res = Inr res' \<Longrightarrow> distinct (map fst res) \<Longrightarrow> distinct (map fst res')"
proof (induction fs arbitrary: res)
  case Nil
  then show ?case by simp
next
  case (Cons x fs)
  then show ?case
    by (cases x) (auto split: sum.splits option.splits if_splits simp: distinct_update)
qed

lemma collect_map_of:
  "collect fs res = Inr res' \<Longrightarrow> \<forall>(s, r) \<in> set fs. r = f s \<Longrightarrow>
   map_of res' s = (if s \<in> fst ` set fs \<and> stored f s \<noteq> None then stored f s else map_of res s)"
proof (induction fs arbitrary: res)
  case Nil
  then show ?case by simp
next
  case (Cons x fs)
  obtain k r where x: "x = (k, r)" by (cases x)
  with Cons.prems have r: "r = f k" by simp
  show ?case
  proof (cases "stored f k")
    case None
    then have "collect (x # fs) res = collect fs res \<or> collect (x # fs) res = Inl (case_sum id undefined r)"
      using x r by (auto simp: stored_def split: sum.splits option.splits if_splits)
    with Cons.prems have c: "collect fs res = Inr res'" by auto
    have "map_of res' s = (if s \<in> fst ` set fs \<and> stored f s \<noteq> None then stored f s else map_of res s)"
      using Cons.IH [OF c] Cons.prems(2) by simp
    then show ?thesis using None x by auto
  next
    case (Some p)
    then have "collect (x # fs) res = collect fs (AList.update k p res)"
      using x r by (auto simp: stored_def split: sum.splits option.splits if_splits)
    with Cons.prems have c: "collect fs (AList.update k p res) = Inr res'" by simp
    have "map_of res' s = (if s \<in> fst ` set fs \<and> stored f s \<noteq> None then stored f s
        else map_of (AList.update k p res) s)"
      using Cons.IH [OF c] Cons.prems(2) by simp
    then show ?thesis using Some x by (auto simp: update_conv')
  qed
qed

lemma completed_futures:
  assumes "mset order = mset [0..<length xs]"
  shows "set (map (\<lambda>i. xs ! i) order) = set xs"
proof -
  have "mset (map (\<lambda>i. xs ! i) order) = image_mset (\<lambda>i. xs ! i) (mset order)"
    by (rule mset_map)
  also have "\<dots> = image_mset (\<lambda>i. xs ! i) (mset [0..<length xs])"
    by (simp only: assms)
  also have "\<dots> = mset (map (\<lambda>i. xs ! i) [0..<length xs])"
    by (rule mset_map [symmetric])
  also have "\<dots> = mset xs" by (simp only: map_nth)
  finally show ?thesis by (rule mset_eq_setD)
qed

lemma parallel_result:
  assumes "mset order = mset [0..<length sheets]"
    and "process_sheets_parallel tm sheets f order = Inr run"
  shows "distinct (map fst (results run))"
    and "map_of (results run) s = (if s \<in> set sheets then stored f s else None)"
    and "submitted run = sheets"
    and "pool_size run = (if sheets = [] then None else Some (max_workers tm))"
    and "sheets \<noteq> [] \<Longrightarrow> 0 < max_workers tm"
proof -
  let ?futures = "map (\<lambda>sheet. (sheet, f sheet)) sheets"
  let ?done = "map (\<lambda>i. ?futures ! i) order"
  have d: "set ?done = set ?futures"
    using completed_futures [of order ?futures] assms(1) by simp
  show "sheets \<noteq> [] \<Longrightarrow> 0 < max_workers tm"
    using assms(2) by (auto simp: process_sheets_parallel_def split: if_splits)
  show "distinct (map fst (results run))"
    using assms(2) collect_distinct [of ?done "[]"]
    by (auto simp: process_sheets_parallel_def bind_def Let_def split: if_splits sum.splits)
  show "submitted run = sheets"
    using assms(2)
    by (auto simp: process_sheets_parallel_def bind_def Let_def comp_def split: if_splits sum.splits)
  show "pool_size run = (if sheets = [] then None else Some (max_workers tm))"
    using assms(2)
    by (auto simp: process_sheets_parallel_def bind_def Let_def split: if_splits sum.splits)
  show "map_of (results run) s = (if s \<in> set sheets then stored f s else None)"
  proof (cases "sheets = []")
    case True
    then show ?thesis using assms(2) by (auto simp: process_sheets_parallel_def)
  next
    case False
    then have c: "collect ?done [] = Inr (results run)"
      using assms(2)
      by (auto simp: process_sheets_parallel_def bind_def Let_def split: if_splits sum.splits)
    have "\<forall>(s, r) \<in> set ?done. r = f s" unfolding d by auto
    from collect_map_of [OF c this, of s]
    have "map_of (results run) s =
        (if s \<in> fst ` set ?futures \<and> stored f s \<noteq> None then stored f s else None)"
      unfolding d by simp
    moreover have "fst ` set ?futures = set sheets" by force
    ultimately show ?thesis by auto
  qed
qed

lemma parallel_returns:
  assumes "mset order = mset [0..<length sheets]"
    and "sheets \<noteq> [] \<Longrightarrow> 0 < max_workers tm"
    and "\<forall>s \<in> set sheets. \<forall>e. f s = Inl e \<longrightarrow> is_Exception e"
  shows "\<exists>run. process_sheets_parallel tm sheets f order = Inr run"
proof (cases "sheets = []")
  case True
  then show ?thesis by (simp add: process_sheets_parallel_def)
next
  case False
  let ?futures = "map (\<lambda>sheet. (sheet, f sheet)) sheets"
  let ?done = "map (\<lambda>i. ?futures ! i) order"
  have d: "set ?done = set ?futures"
    using completed_futures [of order ?futures] assms(1) by simp
  have "\<forall>(s, r) \<in> set ?done. \<forall>e. r = Inl e \<longrightarrow> is_Exception e"
    unfolding d using assms(3) by auto
  from collect_returns [OF this, of "[]"] obtain res where "collect ?done [] = Inr res" by blast
  then show ?thesis using False assms(2)
    by (simp add: process_sheets_parallel_def bind_def Let_def)
qed

lemma stored_nonempty: "stored f s = Some p \<Longrightarrow> p \<noteq> []"
  by (auto simp: stored_def split: sum.splits option.splits if_splits)

lemma pdf_files_in_order_stored:
  assumes "\<And>s. s \<in> set to_process \<Longrightarrow> map_of res s = stored f s"
  shows "pdf_files_in_order to_process res = List.map_filter (stored f) to_process"
proof -
  have "\<And>s. s \<in> set to_process \<Longrightarrow>
      (case map_of res s of None \<Rightarrow> None | Some path \<Rightarrow> if path \<noteq> [] then Some path else None)
        = stored f s"
    using assms stored_nonempty by (fastforce split: option.splits)
  then show ?thesis
    unfolding pdf_files_in_order_def List.map_filter_def
    by (auto intro!: map_cong filter_cong simp: comp_def)
qed

lemma append_all_labels:
  "append_all lib add_bookmarks fs = Inr xs \<Longrightarrow>
   xs = map (\<lambda>p. (p, if add_bookmarks then Some (extract_chapter_name p) else None)) fs"
proof (induction fs arbitrary: xs)
  case Nil
  then show ?case by simp
next
  case (Cons p fs)
  then show ?case
    by (auto simp: bind_def append_file_def Let_def raised_def
        split: sum.splits option.splits if_splits exn.splits)
qed

lemma merge_chapters:
  assumes "merge_sheets_to_ebook merger fs lib pdf_files output_filename add_bookmarks = Inr (Some final)"
  shows "chapters final =
     map (\<lambda>p. (p, if add_bookmarks then Some (extract_chapter_name p) else None))
       (filter (exists fs) pdf_files)"
    and "ebook_file final = path_join (merger_output_dir merger) output_filename"
proof -
  from assms obtain appended where
    a: "append_all lib add_bookmarks (filter (exists fs) pdf_files) = Inr appended"
    and f: "final = \<lparr>ebook_file = path_join (merger_output_dir merger) output_filename, chapters = appended\<rparr>"
    by (auto simp: merge_sheets_to_ebook_def Let_def except_Exception_None_def bind_def
        split: if_splits sum.splits)
  show "chapters final =
     map (\<lambda>p. (p, if add_bookmarks then Some (extract_chapter_name p) else None))
       (filter (exists fs) pdf_files)"
    using append_all_labels [OF a] f by simp
  show "ebook_file final = path_join (merger_output_dir merger) output_filename"
    using f by simp
qed

section \<open>Facts about the styles\<close>

lemma created_styles:
  assumes "create_business_styles font sample = Inr s"
  shows "s = sample @
           [(''BusinessChapter'', BusinessChapter (bold_font font)),
            (''BusinessBody'', BusinessBody font),
            (''BusinessDialog'', BusinessDialog (italic_font font) (BusinessBody font)),
            (''BusinessFirst'', BusinessFirst (BusinessBody font))]"
    and "''BusinessChapter'' \<notin> fst ` set sample"
    and "''BusinessBody'' \<notin> fst ` set sample"
    and "''BusinessDialog'' \<notin> fst ` set sample"
proof -
  have n: "name (BusinessChapter x) = ''BusinessChapter''" "name (BusinessBody y) = ''BusinessBody''"
    "name (BusinessDialog z b) = ''BusinessDialog''" "name (BusinessFirst b) = ''BusinessFirst''"
    for x y z b
    by (simp_all add: BusinessChapter_def BusinessBody_def BusinessDialog_def BusinessFirst_def
        ParagraphStyle_init_def)
  from assms have c: "''BusinessChapter'' \<notin> fst ` set sample"
    by (auto simp: create_business_styles_def bind_def add_def n split: if_splits sum.splits)
  from assms have b: "''BusinessBody'' \<notin> fst ` set sample"
    by (auto simp: create_business_styles_def bind_def add_def n split: if_splits sum.splits)
  have g: "getitem (sample @ (''BusinessChapter'', x) # (''BusinessBody'', y) # rest) ''BusinessBody'' t = Inr y"
    for x y rest t
    using b by (simp add: getitem_def map_add_dom_app_simps dom_map_of_conv_image_fst)
  from assms c b have d: "''BusinessDialog'' \<notin> fst ` set sample"
    by (auto simp: create_business_styles_def bind_def add_def n g split: if_splits sum.splits)
  show "''BusinessChapter'' \<notin> fst ` set sample" "''BusinessBody'' \<notin> fst ` set sample"
    "''BusinessDialog'' \<notin> fst ` set sample" by (fact c b d)+
  show "s = sample @
           [(''BusinessChapter'', BusinessChapter (bold_font font)),
            (''BusinessBody'', BusinessBody font),
            (''BusinessDialog'', BusinessDialog (italic_font font) (BusinessBody font)),
            (''BusinessFirst'', BusinessFirst (BusinessBody font))]"
    using assms c b d
    by (auto simp: create_business_styles_def bind_def add_def n g split: if_splits sum.splits)
qed

lemma get_created_styles:
  assumes "BusinessStyleManager_init font sample = Inr sm"
  shows "get_style sm ''BusinessChapter'' = Inr (BusinessChapter (bold_font font))"
    and "get_style sm ''BusinessBody'' = Inr (BusinessBody font)"
    and "get_style sm ''BusinessDialog'' = Inr (BusinessDialog (italic_font font) (BusinessBody font))"
proof -
  from assms obtain s where s: "create_business_styles font sample = Inr s"
    and sm: "sm = \<lparr>base_font = font, styles = s\<rparr>"
    by (auto simp: BusinessStyleManager_init_def bind_def split: sum.splits)
  note c = created_styles [OF s]
  show "get_style sm ''BusinessChapter'' = Inr (BusinessChapter (bold_font font))"
    using c(2) by (simp add: get_style_def sm c(1) getitem_def map_add_dom_app_simps dom_map_of_conv_image_fst)
  show "get_style sm ''BusinessBody'' = Inr (BusinessBody font)"
    using c(3) by (simp add: get_style_def sm c(1) getitem_def map_add_dom_app_simps dom_map_of_conv_image_fst)
  show "get_style sm ''BusinessDialog'' = Inr (BusinessDialog (italic_font font) (BusinessBody font))"
    using c(4) by (simp add: get_style_def sm c(1) getitem_def map_add_dom_app_simps dom_map_of_conv_image_fst)
qed


lemma story_blocks_styles:
  assumes "get_style sm ''BusinessBody'' = Inr body" and "get_style sm ''BusinessDialog'' = Inr dialog"
    and "\<forall>b \<in> set blocks. strip (content b) \<noteq> [] \<longrightarrow> markup (content b) = None"
  shows "story_blocks sm markup blocks =
     Inr (concat (map (\<lambda>b. if strip (content b) = [] then []
                          else [Para (content b) (if type b = Dialog then dialog else body), Spacer 5])
            blocks))"
  using assms(3) by (induction blocks) (simp_all add: assms(1,2) bind_def Paragraph_init_def)


lemma build_story_styles:
  assumes "BusinessStyleManager_init font sample = Inr sm"
    and "is_chapter_title L sheet_name \<longrightarrow> markup sheet_name = None"
    and "\<forall>b \<in> set blocks. strip (content b) \<noteq> [] \<longrightarrow> markup (content b) = None"
  shows "build_story L \<lparr>style_manager = sm, generator_output_dir = d\<rparr> markup sheet_name blocks =
           Inr ((if is_chapter_title L sheet_name
                 then [Para sheet_name (BusinessChapter (bold_font font)), Spacer 20] else []) @
                concat (map (\<lambda>b. if strip (content b) = [] then []
                    else [Para (content b)
                            (if type b = Dialog
                             then BusinessDialog (italic_font font) (BusinessBody font)
                             else BusinessBody font),
                          Spacer 5])
                  blocks))"
proof -
  note g = get_created_styles [OF assms(1)]
  show ?thesis
    using assms(2)
    by (simp add: build_story_def g(1) story_blocks_styles [OF g(2) g(3) assms(3)] bind_def
        Paragraph_init_def)
qed


section \<open>Facts about the example run\<close>

lemma demo_styles_eq:
  "BusinessStyleManager_init ''Helvetica'' [(''Normal'', ParagraphStyle_init ''Normal'' None [])]
     = Inr demo_styles"
  by (simp add: demo_styles_def demo_world_def BusinessStyleManager_init_def
      create_business_styles_def bind_def add_def ParagraphStyle_init_def getitem_def
      BusinessChapter_def BusinessBody_def BusinessDialog_def BusinessFirst_def)



lemma demo_rows_blocks:
  "process_sheet_content ascii_lib ContentProcessor_init demo_rows =
     [\<lparr>type = Paragraph, content = ascii ''The first row of the sheet.'', original_index = 0,
       original_length = 27\<rparr>]"
  by (simp add: demo_rows_def process_sheet_content_def eval_text ContentProcessor_init_def Let_def
      detect_content_type_def ascii_isupper_def ascii_lower_def header_keywords_def)

lemma demo_task_path:
  assumes "read_column_d w s = Inr demo_rows" and "unicode w = ascii_lib"
    and "doc_build w = (\<lambda>_ _. None)" and "markup_error w = (\<lambda>_. None)"
  shows "demo_task w s = Inr (Some (ascii ''output/temp/'' @ sanitize_filename s @ ascii ''.pdf''))"
proof -
  have r: "demo_rows \<noteq> []" by (simp add: demo_rows_def)
  have j: "path_join (ascii ''output/temp'') (sanitize_filename s @ ascii ''.pdf'')
      = ascii ''output/temp/'' @ sanitize_filename s @ ascii ''.pdf''"
    by (auto simp: path_join_def sanitize_filename_def ascii_def Let_def prefix_def
        split: if_splits) (cases s; simp split: if_splits)+
  show ?thesis
    using r
    by (simp add: demo_task_def process_single_sheet_def assms bind_def demo_rows_blocks
        generate_sheet_pdf_def demo_generator_def build_story_styles [OF demo_styles_eq]
        raised_def except_Exception_None_def Let_def j)
qed

lemma demo_task_no_rows: "read_column_d w s = Inr [] \<Longrightarrow> demo_task w s = Inr None"
  by (simp add: demo_task_def process_single_sheet_def bind_def except_Exception_None_def)

lemma demo_sheets: "sheets_to_process None [ascii ''A'', ascii ''B'', ascii ''C'']
    = Some [ascii ''A'', ascii ''B'', ascii ''C'']"
  by (simp add: sheets_to_process_def ascii_def)

lemma demo_sheet_A: "sheets_to_process (Some [ascii ''A'']) [ascii ''A'', ascii ''B'', ascii ''C'']
    = Some [ascii ''A'']"
  by (simp add: sheets_to_process_def ascii_def)

lemma demo_setup:
  assumes "arg_threads a = None" and "arg_spreadsheet_id a = ascii ''1BxiMVs''"
    and "env_max_threads w = 4" and "env_output_dir w = ascii ''output''" and "credentials_exist w"
    and "reader_init w = None" and "registered_font w = ''Helvetica''"
    and "sample_stylesheet w = [(''Normal'', ParagraphStyle_init ''Normal'' None [])]"
    and "makedirs w = (\<lambda>_. None)"
    and "get_spreadsheet_info w = Inr (ascii ''Book'', [ascii ''A'', ascii ''B'', ascii ''C''])"
    and "sheets_to_process (arg_sheets a) [ascii ''A'', ascii ''B'', ascii ''C''] = Some to_process"
  shows "run_until_merge a w =
     process_and_merge a w \<lparr>max_workers = 4\<rparr> demo_generator
       \<lparr>merger_output_dir = ascii ''output/final''\<rparr> to_process"
proof -
  have j: "path_join (ascii ''output'') (ascii ''temp'') = ascii ''output/temp''"
    "path_join (ascii ''output'') (ascii ''final'') = ascii ''output/final''"
    by (simp_all add: path_join_def ascii_def)
  have v: "validate_setup True (ascii ''1BxiMVs'')" by (simp add: validate_setup_def ascii_def)
  show ?thesis
    using v by (simp add: run_until_merge_def assms bind_def raised_def demo_styles_eq j
        ThreadManager_init_def demo_generator_def)
qed

lemma demo_single_sheet:
  assumes "unicode w = ascii_lib" and "read_column_d w = (\<lambda>_. Inr demo_rows)"
    and "doc_build w = (\<lambda>_ _. None)" and "completion_order w = (\<lambda>n. rotate1 [0..<n])"
    and "files w = \<lparr>exists = (\<lambda>_. True), getsize = (\<lambda>_. 2048)\<rparr>"
    and "append_outline_item (pypdf w) = (\<lambda>_ _. None)" and "merger_write (pypdf w) = (\<lambda>_. None)"
    and "arg_output a = ascii ''vietnamese-ebook.pdf''" and "\<not> arg_no_bookmarks a"
    and "markup_error w = (\<lambda>_. None)"
  shows "process_and_merge a w \<lparr>max_workers = 4\<rparr> demo_generator
       \<lparr>merger_output_dir = ascii ''output/final''\<rparr> [ascii ''A'']
     = Merged \<lparr>ebook_file = ascii ''output/final/vietnamese-ebook.pdf'',
               chapters = [(ascii ''output/temp/A.pdf'', Some (ascii ''A''))]\<rparr> 1 1 1"
proof -
  have t: "demo_task w (ascii ''A'') = Inr (Some (ascii ''output/temp/A.pdf''))"
    using demo_task_path [of w "ascii ''A''"] assms(1-3) assms(10)
    by (simp add: sanitize_filename_def ascii_def)
  have p: "process_sheets_parallel \<lparr>max_workers = 4\<rparr> [ascii ''A''] (demo_task w) [0]
      = Inr \<lparr>results = [(ascii ''A'', ascii ''output/temp/A.pdf'')], pool_size = Some 4,
             submitted = [ascii ''A'']\<rparr>"
    by (simp add: process_sheets_parallel_def t bind_def) (simp add: ascii_def)
  have f: "pdf_files_in_order [ascii ''A''] [(ascii ''A'', ascii ''output/temp/A.pdf'')]
      = [ascii ''output/temp/A.pdf'']"
    by (simp add: pdf_files_in_order_def List.map_filter_def ascii_def)
  have c: "extract_chapter_name (ascii ''output/temp/A.pdf'') = ascii ''A''"
    by (simp add: extract_chapter_name_def basename_def splitext_root_def ascii_def Let_def)
  have j: "path_join (ascii ''output/final'') (ascii ''vietnamese-ebook.pdf'')
      = ascii ''output/final/vietnamese-ebook.pdf''"
    by (simp add: path_join_def ascii_def)
  have m: "merge_sheets_to_ebook \<lparr>merger_output_dir = ascii ''output/final''\<rparr> (files w) (pypdf w)
      [ascii ''output/temp/A.pdf''] (ascii ''vietnamese-ebook.pdf'') True
      = Inr (Some \<lparr>ebook_file = ascii ''output/final/vietnamese-ebook.pdf'',
               chapters = [(ascii ''output/temp/A.pdf'', Some (ascii ''A''))]\<rparr>)"
    by (simp add: merge_sheets_to_ebook_def assms append_file_def c bind_def raised_def
        except_Exception_None_def j)
  show ?thesis
    using assms(8,9)
    by (simp add: process_and_merge_def demo_task_def [symmetric] assms(4) p f m)
qed

section \<open>Renderer: the claim\<close>




section \<open>The run: the claims\<close>

text \<open>
  C1. With the three sheets A, B and C, of which B yields no rows, \<open>main\<close> should merge A
  and C, report 2 of 3 sheets and return 0. It returns 1 and merges nothing: with more
  than one sheet it looks up \<open>estimate_processing_time\<close>, an attribute that \<open>ThreadManager\<close>
  does not have, and the \<open>AttributeError\<close> ends in the handler that returns 1.
\<close>

theorem three_sheets_exit_1: "main demo_args demo_world_B_empty = exit_with 1"
proof -
  have "run_until_merge demo_args demo_world_B_empty =
     process_and_merge demo_args demo_world_B_empty \<lparr>max_workers = 4\<rparr> demo_generator
       \<lparr>merger_output_dir = ascii ''output/final''\<rparr> [ascii ''A'', ascii ''B'', ascii ''C'']"
    by (rule demo_setup) (simp_all add: demo_args_def demo_world_B_empty_def demo_world_def demo_sheets)
  also have "\<dots> = Exit 1"
    by (simp add: process_and_merge_def ThreadManager_getattr_def ThreadManager_attributes_def)
  finally show ?thesis by (simp add: main_def)
qed

text \<open>
  C10. When the merged ebook is valid and reading its pages raises, \<open>get_ebook_stats\<close>
  returns the dictionary with only \<open>file_path\<close>, \<open>file_size_kb\<close> and \<open>num_pages\<close>; the
  summary then fails at \<open>file_size_mb\<close>, and \<open>main\<close> returns 1 although the ebook was
  written.
\<close>

theorem stats_fallback_ends_run_with_1:
  assumes "run_until_merge a w = Merged final n_files n_results n_sheets"
    and "validate_ebook (files w) (ebook_file final)"
    and "reader_pages (pypdf w) (ebook_file final) = Inl e" and "is_Exception e"
  shows "get_ebook_stats (files w) (pypdf w) (ebook_file final) =
           Inr (Some [(''file_path'', Text (ebook_file final)),
                      (''file_size_kb'', Rounded (getsize (files w) (ebook_file final)) 1024),
                      (''num_pages'', Text (ascii ''Unknown''))]) \<and>
         main a w = \<lparr>exit_code = 1, merged = Some final,
                      printed = [Ebook (ebook_file final), Pages (Text (ascii ''Unknown''))]\<rparr>"
proof -
  have s: "get_ebook_stats (files w) (pypdf w) (ebook_file final) =
           Inr (Some [(''file_path'', Text (ebook_file final)),
                      (''file_size_kb'', Rounded (getsize (files w) (ebook_file final)) 1024),
                      (''num_pages'', Text (ascii ''Unknown''))])"
    using assms(2-4) by (simp add: get_ebook_stats_def)
  have "main a w = report w final n_files n_results n_sheets"
    using assms(1) by (simp add: main_def)
  also have "\<dots> = \<lparr>exit_code = 1, merged = Some final,
                      printed = [Ebook (ebook_file final), Pages (Text (ascii ''Unknown''))]\<rparr>"
    using assms(2) by (simp add: report_def s print_summary_def stat_item_def getitem_def)
  finally show ?thesis using s by simp
qed

text \<open>Witness for C10: the run for sheet A alone, in the world where reading pages raises.\<close>

theorem stats_fallback_ends_run_with_1_witness:
  "run_until_merge (demo_args\<lparr>arg_sheets := Some [ascii ''A'']\<rparr>) demo_world_unreadable =
     Merged \<lparr>ebook_file = ascii ''output/final/vietnamese-ebook.pdf'',
             chapters = [(ascii ''output/temp/A.pdf'', Some (ascii ''A''))]\<rparr> 1 1 1 \<and>
   validate_ebook (files demo_world_unreadable) (ascii ''output/final/vietnamese-ebook.pdf'') \<and>
   reader_pages (pypdf demo_world_unreadable) (ascii ''output/final/vietnamese-ebook.pdf'')
     = Inl (OtherError ''PdfReadError'') \<and>
   is_Exception (OtherError ''PdfReadError'') \<and>
   main (demo_args\<lparr>arg_sheets := Some [ascii ''A'']\<rparr>) demo_world_unreadable =
     \<lparr>exit_code = 1,
      merged = Some \<lparr>ebook_file = ascii ''output/final/vietnamese-ebook.pdf'',
                      chapters = [(ascii ''output/temp/A.pdf'', Some (ascii ''A''))]\<rparr>,
      printed = [Ebook (ascii ''output/final/vietnamese-ebook.pdf''), Pages (Text (ascii ''Unknown''))]\<rparr>"
proof -
  let ?a = "demo_args\<lparr>arg_sheets := Some [ascii ''A'']\<rparr>"
  let ?final = "\<lparr>ebook_file = ascii ''output/final/vietnamese-ebook.pdf'',
             chapters = [(ascii ''output/temp/A.pdf'', Some (ascii ''A''))]\<rparr>"
  have "run_until_merge ?a demo_world_unreadable =
     process_and_merge ?a demo_world_unreadable \<lparr>max_workers = 4\<rparr> demo_generator
       \<lparr>merger_output_dir = ascii ''output/final''\<rparr> [ascii ''A'']"
    by (rule demo_setup)
      (simp_all add: demo_args_def demo_world_unreadable_def demo_world_def demo_sheet_A)
  also have "\<dots> = Merged ?final 1 1 1"
    by (rule demo_single_sheet)
      (simp_all add: demo_args_def demo_world_unreadable_def demo_world_def)
  finally have r: "run_until_merge ?a demo_world_unreadable = Merged ?final 1 1 1" .
  have v: "validate_ebook (files demo_world_unreadable) (ebook_file ?final)"
    by (simp add: validate_ebook_def demo_world_unreadable_def demo_world_def)
  have p: "reader_pages (pypdf demo_world_unreadable) (ebook_file ?final)
     = Inl (OtherError ''PdfReadError'')"
    by (simp add: demo_world_unreadable_def demo_world_def)
  have e: "is_Exception (OtherError ''PdfReadError'')" by simp
  from stats_fallback_ends_run_with_1 [OF r v p e] r v p e show ?thesis by simp
qed

section \<open>Facts about sheet tasks\<close>

lemma is_Exception_iff: "is_Exception e \<longleftrightarrow> e \<noteq> KeyboardInterrupt"
  by (cases e) simp_all

lemma getitem_raises: "getitem d k t = Inl e \<Longrightarrow> is_Exception e"
  by (auto simp: getitem_def split: option.splits)

lemma get_style_raises: "get_style sm n = Inl e \<Longrightarrow> is_Exception e"
  by (auto simp: get_style_def split: if_splits dest: getitem_raises)

lemma story_blocks_raises: "story_blocks sm markup blocks = Inl e \<Longrightarrow> is_Exception e"
proof (induction blocks)
  case Nil
  then show ?case by simp
next
  case (Cons b blocks)
  then show ?case
    by (auto simp: bind_def Paragraph_init_def split: if_splits sum.splits option.splits
        dest: get_style_raises)
qed

lemma build_story_raises: "build_story L gen markup s blocks = Inl e \<Longrightarrow> is_Exception e"
  by (auto simp: build_story_def bind_def Paragraph_init_def
      split: if_splits sum.splits option.splits dest: get_style_raises story_blocks_raises)

lemma sheet_pdf_path_nonempty: "sheet_pdf_path gen s \<noteq> []"
  by (auto simp: sheet_pdf_path_def path_join_def ascii_def)

lemma task_outcome:
  assumes "reader s \<noteq> Inl KeyboardInterrupt"
    and "\<forall>story. build (sheet_pdf_path gen s) story \<noteq> Some KeyboardInterrupt"
  shows "process_single_sheet L reader cp gen markup build s =
     (if task_fails L reader cp gen markup build s then Inr None else Inr (Some (sheet_pdf_path gen s)))"
proof (cases "reader s")
  case (Inl e)
  then have "is_Exception e" using assms(1) by (simp add: is_Exception_iff)
  then show ?thesis using Inl
    by (simp add: process_single_sheet_def task_fails_def bind_def except_Exception_None_def)
next
  case (Inr raw)
  show ?thesis
  proof (cases "raw = [] \<or> process_sheet_content L cp raw = []")
    case True
    then show ?thesis using Inr
      by (auto simp: process_single_sheet_def task_fails_def bind_def except_Exception_None_def)
  next
    case False
    let ?blocks = "process_sheet_content L cp raw"
    show ?thesis
    proof (cases "build_story L gen markup s ?blocks")
      case (Inl e)
      then have "is_Exception e" by (rule build_story_raises)
      then show ?thesis using Inr False Inl
        by (simp add: process_single_sheet_def task_fails_def bind_def except_Exception_None_def
            generate_sheet_pdf_def Let_def)
    next
      case story: (Inr story)
      show ?thesis
      proof (cases "build (sheet_pdf_path gen s) story")
        case None
        then show ?thesis using Inr False story
          by (simp add: process_single_sheet_def task_fails_def bind_def except_Exception_None_def
              generate_sheet_pdf_def Let_def raised_def sheet_pdf_path_def)
      next
        case (Some e)
        then have "is_Exception e" using assms(2) by (auto simp: is_Exception_iff)
        then show ?thesis using Inr False story Some
          by (simp add: process_single_sheet_def task_fails_def bind_def except_Exception_None_def
              generate_sheet_pdf_def Let_def raised_def sheet_pdf_path_def)
      qed
    qed
  qed
qed

lemma stored_task:
  assumes "reader s \<noteq> Inl KeyboardInterrupt"
    and "\<forall>story. build (sheet_pdf_path gen s) story \<noteq> Some KeyboardInterrupt"
  shows "stored (process_single_sheet L reader cp gen markup build) s =
     (if task_fails L reader cp gen markup build s then None else Some (sheet_pdf_path gen s))"
  using task_outcome [of reader s build gen L cp markup] assms by (simp add: stored_def sheet_pdf_path_nonempty)

lemma ascii_eq_Nil: "ascii s = [] \<longleftrightarrow> s = []"
  by (simp add: ascii_def)

lemma ascii_inject: "ascii a = ascii b \<longleftrightarrow> a = b"
  by (simp add: ascii_def inj_map_eq_map inj_on_def)

lemma demo_paths:
  "sanitize_filename (ascii ''A'') = ascii ''A''"
  "sanitize_filename (ascii ''B'') = ascii ''B''"
  "sanitize_filename (ascii ''C'') = ascii ''C''"
  by (simp_all add: sanitize_filename_def ascii_def)

lemma demo_task_values:
  "demo_task demo_world (ascii ''A'') = Inr (Some (ascii ''output/temp/A.pdf''))"
  "demo_task demo_world (ascii ''B'') = Inr (Some (ascii ''output/temp/B.pdf''))"
  "demo_task demo_world (ascii ''C'') = Inr (Some (ascii ''output/temp/C.pdf''))"
  "demo_task demo_world_B_empty (ascii ''A'') = Inr (Some (ascii ''output/temp/A.pdf''))"
  "demo_task demo_world_B_empty (ascii ''B'') = Inr None"
  "demo_task demo_world_B_empty (ascii ''C'') = Inr (Some (ascii ''output/temp/C.pdf''))"
proof -
  have w: "unicode demo_world = ascii_lib" "doc_build demo_world = (\<lambda>_ _. None)"
    "read_column_d demo_world s = Inr demo_rows" "markup_error demo_world = (\<lambda>_. None)" for s
    by (simp_all add: demo_world_def)
  have e: "unicode demo_world_B_empty = ascii_lib" "doc_build demo_world_B_empty = (\<lambda>_ _. None)"
    "read_column_d demo_world_B_empty (ascii ''A'') = Inr demo_rows"
    "read_column_d demo_world_B_empty (ascii ''C'') = Inr demo_rows"
    "read_column_d demo_world_B_empty (ascii ''B'') = Inr []"
    "markup_error demo_world_B_empty = (\<lambda>_. None)"
    by (simp_all add: demo_world_B_empty_def demo_world_def ascii_def)
  show "demo_task demo_world (ascii ''A'') = Inr (Some (ascii ''output/temp/A.pdf''))"
    using demo_task_path [OF w(3) w(1) w(2) w(4), of "ascii ''A''"] by (simp add: demo_paths) (simp add: ascii_def)
  show "demo_task demo_world (ascii ''B'') = Inr (Some (ascii ''output/temp/B.pdf''))"
    using demo_task_path [OF w(3) w(1) w(2) w(4), of "ascii ''B''"] by (simp add: demo_paths) (simp add: ascii_def)
  show "demo_task demo_world (ascii ''C'') = Inr (Some (ascii ''output/temp/C.pdf''))"
    using demo_task_path [OF w(3) w(1) w(2) w(4), of "ascii ''C''"] by (simp add: demo_paths) (simp add: ascii_def)
  show "demo_task demo_world_B_empty (ascii ''A'') = Inr (Some (ascii ''output/temp/A.pdf''))"
    using demo_task_path [OF e(3) e(1) e(2) e(6)] by (simp add: demo_paths) (simp add: ascii_def)
  show "demo_task demo_world_B_empty (ascii ''C'') = Inr (Some (ascii ''output/temp/C.pdf''))"
    using demo_task_path [OF e(4) e(1) e(2) e(6)] by (simp add: demo_paths) (simp add: ascii_def)
  show "demo_task demo_world_B_empty (ascii ''B'') = Inr None"
    using e(5) by (rule demo_task_no_rows)
qed

lemma demo_chapter_names:
  "extract_chapter_name (ascii ''output/temp/A.pdf'') = ascii ''A''"
  "extract_chapter_name (ascii ''output/temp/B.pdf'') = ascii ''B''"
  "extract_chapter_name (ascii ''output/temp/C.pdf'') = ascii ''C''"
  by (simp_all add: extract_chapter_name_def basename_def splitext_root_def ascii_def Let_def)

section \<open>Scheduler and merge: the claims\<close>

text \<open>
  C2, as stated, fails: a failed task leaves nothing in the result dictionary. Sheet B
  yields no rows, its task returns \<open>None\<close>, and after the run the dictionary has the entry
  of sheet A only.
\<close>

theorem failed_sheet_has_no_entry:
  "demo_task demo_world_B_empty (ascii ''B'') = Inr None \<and>
   process_sheets_parallel \<lparr>max_workers = 4\<rparr> [ascii ''A'', ascii ''B''] (demo_task demo_world_B_empty)
     [1, 0] =
   Inr \<lparr>results = [(ascii ''A'', ascii ''output/temp/A.pdf'')], pool_size = Some 4,
        submitted = [ascii ''A'', ascii ''B'']\<rparr>"
  by (simp add: process_sheets_parallel_def demo_task_values bind_def ascii_eq_Nil ascii_inject)

text \<open>
  C2, amended. Every failure inside a sheet task (the reader raises or returns no rows,
  no content block survives, building the story or the document raises) is caught in
  the task, which then returns \<open>None\<close>; no exception passes the scheduler, and the scheduler
  stores no entry for such a sheet: the result dictionary holds exactly the requested
  sheets whose task did not fail, each with the path of its file. The pool size is at
  least 1 and no call is interrupted from the keyboard.
\<close>

theorem task_failures_leave_no_entry:
  assumes "mset order = mset [0..<length sheets]"
    and "0 < max_workers tm"
    and "\<forall>s \<in> set sheets. reader s \<noteq> Inl KeyboardInterrupt"
    and "\<forall>s \<in> set sheets. \<forall>story. build (sheet_pdf_path gen s) story \<noteq> Some KeyboardInterrupt"
  shows "\<exists>run. process_sheets_parallel tm sheets (process_single_sheet L reader cp gen markup build) order
             = Inr run \<and>
           (\<forall>s \<in> set sheets.
              process_single_sheet L reader cp gen markup build s =
                (if task_fails L reader cp gen markup build s then Inr None
                 else Inr (Some (sheet_pdf_path gen s)))) \<and>
           (\<forall>s. map_of (results run) s =
                (if s \<in> set sheets \<and> \<not> task_fails L reader cp gen markup build s
                 then Some (sheet_pdf_path gen s) else None))"
proof -
  let ?task = "process_single_sheet L reader cp gen markup build"
  have t: "\<forall>s \<in> set sheets. ?task s =
      (if task_fails L reader cp gen markup build s then Inr None else Inr (Some (sheet_pdf_path gen s)))"
    using task_outcome assms(3,4) by blast
  then have "\<forall>s \<in> set sheets. \<forall>e. ?task s = Inl e \<longrightarrow> is_Exception e"
    by (auto split: if_splits)
  from parallel_returns [OF assms(1) _ this, of tm] assms(2)
  obtain run where run: "process_sheets_parallel tm sheets ?task order = Inr run" by auto
  have "map_of (results run) s =
      (if s \<in> set sheets \<and> \<not> task_fails L reader cp gen markup build s
       then Some (sheet_pdf_path gen s) else None)" for s
    using parallel_result(2) [OF assms(1) run, of s] stored_task [of reader s build gen L cp markup] assms(3,4)
    by auto
  with run t show ?thesis by blast
qed

text \<open>Witness for C2: sheets A and B, where B yields no rows and finishes first.\<close>

theorem task_failures_leave_no_entry_witness:
  "mset [1, 0] = mset [0..<length [ascii ''A'', ascii ''B'']] \<and>
   0 < max_workers \<lparr>max_workers = 4\<rparr> \<and>
   read_column_d demo_world_B_empty (ascii ''B'') = Inr [] \<and>
   (\<exists>run. process_sheets_parallel \<lparr>max_workers = 4\<rparr> [ascii ''A'', ascii ''B'']
            (demo_task demo_world_B_empty) [1, 0] = Inr run \<and>
          map_of (results run) (ascii ''B'') = None \<and>
          map_of (results run) (ascii ''A'') = Some (ascii ''output/temp/A.pdf''))"
proof -
  let ?w = demo_world_B_empty
  let ?sheets = "[ascii ''A'', ascii ''B'']"
  have p: "mset [1, 0] = mset [0..<length ?sheets]" by (simp add: upt_rec)
  have m: "0 < max_workers \<lparr>max_workers = 4\<rparr>" by simp
  have r: "\<forall>s \<in> set ?sheets. read_column_d ?w s \<noteq> Inl KeyboardInterrupt"
    by (simp add: demo_world_B_empty_def demo_world_def)
  have b: "\<forall>s \<in> set ?sheets. \<forall>story.
      doc_build ?w (sheet_pdf_path demo_generator s) story \<noteq> Some KeyboardInterrupt"
    by (simp add: demo_world_B_empty_def demo_world_def)
  have e: "read_column_d ?w (ascii ''B'') = Inr []"
    by (simp add: demo_world_B_empty_def demo_world_def)
  from task_failures_leave_no_entry [OF p m r b, of "unicode ?w" ContentProcessor_init
      "markup_error ?w"]
  obtain run where run: "process_sheets_parallel \<lparr>max_workers = 4\<rparr> ?sheets (demo_task ?w) [1, 0] = Inr run"
    and t: "\<forall>s \<in> set ?sheets. demo_task ?w s =
        (if task_fails (unicode ?w) (read_column_d ?w) ContentProcessor_init demo_generator
            (markup_error ?w) (doc_build ?w) s
         then Inr None else Inr (Some (sheet_pdf_path demo_generator s)))"
    and k: "\<forall>s. map_of (results run) s =
        (if s \<in> set ?sheets \<and>
            \<not> task_fails (unicode ?w) (read_column_d ?w) ContentProcessor_init demo_generator
            (markup_error ?w) (doc_build ?w) s
         then Some (sheet_pdf_path demo_generator s) else None)"
    unfolding demo_task_def by blast
  from t have fb: "task_fails (unicode ?w) (read_column_d ?w) ContentProcessor_init demo_generator
      (markup_error ?w) (doc_build ?w) (ascii ''B'')"
    by (auto simp: demo_task_values split: if_splits)
  from t have fa: "\<not> task_fails (unicode ?w) (read_column_d ?w) ContentProcessor_init demo_generator
      (markup_error ?w) (doc_build ?w) (ascii ''A'') \<and> sheet_pdf_path demo_generator (ascii ''A'') = ascii ''output/temp/A.pdf''"
    by (auto simp: demo_task_values split: if_splits)
  have "map_of (results run) (ascii ''B'') = None" using k fb by simp
  moreover have "map_of (results run) (ascii ''A'') = Some (ascii ''output/temp/A.pdf'')"
    using k fa by simp
  ultimately show ?thesis using p m e run by blast
qed

text \<open>
  C3, as stated, fails in one part: a name given twice is submitted twice. Only the
  dictionary has one entry for it.
\<close>

theorem duplicate_names_submitted_twice:
  "process_sheets_parallel \<lparr>max_workers = 4\<rparr> [ascii ''A'', ascii ''A''] (demo_task demo_world) [0, 1] =
   Inr \<lparr>results = [(ascii ''A'', ascii ''output/temp/A.pdf'')], pool_size = Some 4,
        submitted = [ascii ''A'', ascii ''A'']\<rparr>"
  by (simp add: process_sheets_parallel_def demo_task_values bind_def ascii_eq_Nil ascii_inject)

text \<open>
  C3, amended. For every sequence of sheet names, with or without duplicates,
  \<open>process_sheets_parallel\<close> returns a dictionary with at most one entry per name and with
  keys among the given names; one task is submitted for every element of the sequence,
  a repeated name included; for the empty sequence the dictionary is empty and no pool
  is created. The pool size is at least 1 when there are sheets, and the tasks raise
  nothing but subclasses of \<open>Exception\<close>.
\<close>

theorem keys_within_requested_names:
  assumes "mset order = mset [0..<length sheets]"
    and "sheets \<noteq> [] \<longrightarrow> 0 < max_workers tm"
    and "\<forall>s \<in> set sheets. \<forall>e. f s = Inl e \<longrightarrow> is_Exception e"
  shows "\<exists>run. process_sheets_parallel tm sheets f order = Inr run \<and>
           distinct (map fst (results run)) \<and>
           set (map fst (results run)) \<subseteq> set sheets \<and>
           submitted run = sheets \<and>
           (sheets = [] \<longrightarrow> results run = [] \<and> pool_size run = None)"
proof -
  from parallel_returns [OF assms(1) _ assms(3), of tm] assms(2)
  obtain run where run: "process_sheets_parallel tm sheets f order = Inr run" by auto
  note r = parallel_result [OF assms(1) run]
  have "set (map fst (results run)) \<subseteq> set sheets"
  proof
    fix k assume "k \<in> set (map fst (results run))"
    then have "map_of (results run) k \<noteq> None" by (simp add: map_of_eq_None_iff)
    then show "k \<in> set sheets" using r(2) [of k] by (auto split: if_splits)
  qed
  moreover have "sheets = [] \<longrightarrow> results run = [] \<and> pool_size run = None"
    using run by (auto simp: process_sheets_parallel_def)
  ultimately show ?thesis using run r(1,3) by blast
qed

text \<open>Witness for C3: the names A, B, A, finishing in the order 2, 0, 1.\<close>

theorem keys_within_requested_names_witness:
  "mset [2, 0, 1] = mset [0..<length [ascii ''A'', ascii ''B'', ascii ''A'']] \<and>
   0 < max_workers \<lparr>max_workers = 4\<rparr> \<and>
   (\<exists>run. process_sheets_parallel \<lparr>max_workers = 4\<rparr> [ascii ''A'', ascii ''B'', ascii ''A'']
            (demo_task demo_world_B_empty) [2, 0, 1] = Inr run \<and>
          distinct (map fst (results run)) \<and>
          set (map fst (results run)) \<subseteq> set [ascii ''A'', ascii ''B'', ascii ''A''] \<and>
          submitted run = [ascii ''A'', ascii ''B'', ascii ''A''])"
proof -
  have p: "mset [2, 0, 1] = mset [0..<length [ascii ''A'', ascii ''B'', ascii ''A'']]"
    by (simp add: upt_rec)
  have m: "[ascii ''A'', ascii ''B'', ascii ''A''] \<noteq> [] \<longrightarrow> 0 < max_workers \<lparr>max_workers = 4\<rparr>"
    by simp
  have t: "\<forall>s \<in> set [ascii ''A'', ascii ''B'', ascii ''A''].
      \<forall>e. demo_task demo_world_B_empty s = Inl e \<longrightarrow> is_Exception e"
    by (simp add: demo_task_values)
  from keys_within_requested_names [OF p m t] p show ?thesis by auto
qed

text \<open>
  C4. The chapters of the merged ebook are the requested sheets in their requested
  order, restricted to the sheets whose task stored a file that exists at merge time;
  the order in which the tasks complete does not occur in the result.
\<close>

theorem chapters_follow_requested_order:
  assumes "mset order = mset [0..<length sheets]"
    and "process_sheets_parallel tm sheets f order = Inr run"
    and "merge_sheets_to_ebook merger fs lib (pdf_files_in_order sheets (results run))
           output_filename add_bookmarks = Inr (Some final)"
  shows "chapters final =
     map (\<lambda>s. (the (stored f s),
               if add_bookmarks then Some (extract_chapter_name (the (stored f s))) else None))
       (filter (\<lambda>s. case stored f s of None \<Rightarrow> False | Some p \<Rightarrow> exists fs p) sheets)"
proof -
  have "pdf_files_in_order sheets (results run) = List.map_filter (stored f) sheets"
    using parallel_result(2) [OF assms(1,2)] by (intro pdf_files_in_order_stored) simp
  also have "\<dots> = map (\<lambda>s. the (stored f s)) (filter (\<lambda>s. stored f s \<noteq> None) sheets)"
    by (simp add: List.map_filter_def comp_def)
  finally have files: "pdf_files_in_order sheets (results run) =
      map (\<lambda>s. the (stored f s)) (filter (\<lambda>s. stored f s \<noteq> None) sheets)" .
  have "filter (exists fs) (pdf_files_in_order sheets (results run)) =
      map (\<lambda>s. the (stored f s))
        (filter (\<lambda>s. case stored f s of None \<Rightarrow> False | Some p \<Rightarrow> exists fs p) sheets)"
    unfolding files filter_map filter_filter
    by (intro arg_cong [where f = "map (\<lambda>s. the (stored f s))"] filter_cong)
      (auto split: option.splits)
  then show ?thesis using merge_chapters(1) [OF assms(3)] by (simp add: comp_def)
qed

text \<open>
  Witness for C4: the sheets A, B, C, completing in the order B, C, A. The dictionary is
  filled in that order; the chapters are A, B, C.
\<close>

theorem chapters_follow_requested_order_witness:
  "mset [1, 2, 0] = mset [0..<length [ascii ''A'', ascii ''B'', ascii ''C'']] \<and>
   process_sheets_parallel \<lparr>max_workers = 4\<rparr> [ascii ''A'', ascii ''B'', ascii ''C'']
     (demo_task demo_world) [1, 2, 0] =
     Inr \<lparr>results = [(ascii ''B'', ascii ''output/temp/B.pdf''),
                     (ascii ''C'', ascii ''output/temp/C.pdf''),
                     (ascii ''A'', ascii ''output/temp/A.pdf'')],
          pool_size = Some 4, submitted = [ascii ''A'', ascii ''B'', ascii ''C'']\<rparr> \<and>
   merge_sheets_to_ebook \<lparr>merger_output_dir = ascii ''output/final''\<rparr> (files demo_world)
     (pypdf demo_world)
     (pdf_files_in_order [ascii ''A'', ascii ''B'', ascii ''C'']
        [(ascii ''B'', ascii ''output/temp/B.pdf''), (ascii ''C'', ascii ''output/temp/C.pdf''),
         (ascii ''A'', ascii ''output/temp/A.pdf'')])
     (ascii ''vietnamese-ebook.pdf'') True =
     Inr (Some \<lparr>ebook_file = ascii ''output/final/vietnamese-ebook.pdf'',
                chapters = [(ascii ''output/temp/A.pdf'', Some (ascii ''A'')),
                            (ascii ''output/temp/B.pdf'', Some (ascii ''B'')),
                            (ascii ''output/temp/C.pdf'', Some (ascii ''C''))]\<rparr>) \<and>
   map (\<lambda>s. (the (stored (demo_task demo_world) s),
             Some (extract_chapter_name (the (stored (demo_task demo_world) s)))))
     (filter (\<lambda>s. case stored (demo_task demo_world) s of None \<Rightarrow> False
                 | Some p \<Rightarrow> exists (files demo_world) p)
        [ascii ''A'', ascii ''B'', ascii ''C'']) =
     [(ascii ''output/temp/A.pdf'', Some (ascii ''A'')),
      (ascii ''output/temp/B.pdf'', Some (ascii ''B'')),
      (ascii ''output/temp/C.pdf'', Some (ascii ''C''))]"
proof -
  let ?sheets = "[ascii ''A'', ascii ''B'', ascii ''C'']"
  let ?res = "[(ascii ''B'', ascii ''output/temp/B.pdf''), (ascii ''C'', ascii ''output/temp/C.pdf''),
         (ascii ''A'', ascii ''output/temp/A.pdf'')]"
  let ?run = "\<lparr>results = ?res, pool_size = Some 4, submitted = ?sheets\<rparr>"
  let ?final = "\<lparr>ebook_file = ascii ''output/final/vietnamese-ebook.pdf'',
                chapters = [(ascii ''output/temp/A.pdf'', Some (ascii ''A'')),
                            (ascii ''output/temp/B.pdf'', Some (ascii ''B'')),
                            (ascii ''output/temp/C.pdf'', Some (ascii ''C''))]\<rparr>"
  have p: "mset [1, 2, 0] = mset [0..<length ?sheets]" by (simp add: upt_rec)
  have r: "process_sheets_parallel \<lparr>max_workers = 4\<rparr> ?sheets (demo_task demo_world) [1, 2, 0] = Inr ?run"
    by (simp add: process_sheets_parallel_def demo_task_values bind_def ascii_eq_Nil ascii_inject)
  have f: "pdf_files_in_order ?sheets ?res =
      [ascii ''output/temp/A.pdf'', ascii ''output/temp/B.pdf'', ascii ''output/temp/C.pdf'']"
    by (simp add: pdf_files_in_order_def List.map_filter_def ascii_eq_Nil ascii_inject)
  have j: "path_join (ascii ''output/final'') (ascii ''vietnamese-ebook.pdf'')
      = ascii ''output/final/vietnamese-ebook.pdf''"
    by (simp add: path_join_def ascii_def)
  have m: "merge_sheets_to_ebook \<lparr>merger_output_dir = ascii ''output/final''\<rparr> (files demo_world)
      (pypdf demo_world) (pdf_files_in_order ?sheets (results ?run)) (ascii ''vietnamese-ebook.pdf'') True
      = Inr (Some ?final)"
    by (simp add: f merge_sheets_to_ebook_def demo_world_def append_file_def demo_chapter_names
        bind_def raised_def except_Exception_None_def j ascii_eq_Nil)
  from chapters_follow_requested_order [OF p r m] have
    "chapters ?final = map (\<lambda>s. (the (stored (demo_task demo_world) s),
             if True then Some (extract_chapter_name (the (stored (demo_task demo_world) s))) else None))
     (filter (\<lambda>s. case stored (demo_task demo_world) s of None \<Rightarrow> False
                 | Some p \<Rightarrow> exists (files demo_world) p) ?sheets)" .
  then show ?thesis using p r m by simp
qed

text \<open>
  C6, as stated, fails: the pool size does not depend on the number of sheets or on the
  processor count when a worker count is given, as \<open>main\<close> always does. With one sheet, two
  processors and the configured default of 4 the pool has 4 workers, where the stated
  formula gives 1; and with a configured count of 0 no pool is created at all.
\<close>

theorem pool_size_ignores_sheet_count:
  "process_sheets_parallel (ThreadManager_init (Some 4) (Some 2)) [ascii ''A''] (demo_task demo_world) [0] =
     Inr \<lparr>results = [(ascii ''A'', ascii ''output/temp/A.pdf'')], pool_size = Some 4,
          submitted = [ascii ''A'']\<rparr> \<and>
   spec_pool_size 1 2 6 = 1 \<and>
   process_sheets_parallel (ThreadManager_init (Some 0) (Some 2)) [ascii ''A''] (demo_task demo_world) [0] =
     Inl (ValueError ''max_workers must be greater than 0'')"
  by (simp add: process_sheets_parallel_def demo_task_values bind_def ascii_eq_Nil
      ThreadManager_init_def spec_pool_size_def)

text \<open>
  C6, amended. The pool is created with exactly \<open>max_workers\<close> workers, which must be at
  least 1. \<open>ThreadManager\<close> takes a given worker count as it is; only when none is given
  does it take the least of the processor count (4 if unknown) and the cap 6.
\<close>

theorem pool_has_max_workers:
  assumes "process_sheets_parallel tm sheets f order = Inr run" and "sheets \<noteq> []"
  shows "pool_size run = Some (max_workers tm) \<and> 1 \<le> max_workers tm \<and>
         max_workers (ThreadManager_init (Some n) cpu) = n \<and>
         (cpu = None \<or> cpu = Some 0 \<longrightarrow> max_workers (ThreadManager_init None cpu) = 4) \<and>
         (\<forall>c. cpu = Some c \<and> 0 < c \<longrightarrow> max_workers (ThreadManager_init None cpu) = min c 6)"
  using assms
  by (auto simp: process_sheets_parallel_def bind_def Let_def ThreadManager_init_def
      split: if_splits sum.splits)

text \<open>Witness for C6: one sheet, no worker count given, eight processors.\<close>

theorem pool_has_max_workers_witness:
  "process_sheets_parallel (ThreadManager_init None (Some 8)) [ascii ''A''] (demo_task demo_world) [0] =
     Inr \<lparr>results = [(ascii ''A'', ascii ''output/temp/A.pdf'')], pool_size = Some 6,
          submitted = [ascii ''A'']\<rparr> \<and>
   [ascii ''A''] \<noteq> [] \<and>
   max_workers (ThreadManager_init None (Some 8)) = 6 \<and>
   max_workers (ThreadManager_init None None) = 4 \<and>
   max_workers (ThreadManager_init (Some 12) (Some 8)) = 12"
proof -
  have r: "process_sheets_parallel (ThreadManager_init None (Some 8)) [ascii ''A''] (demo_task demo_world) [0] =
     Inr \<lparr>results = [(ascii ''A'', ascii ''output/temp/A.pdf'')], pool_size = Some 6,
          submitted = [ascii ''A'']\<rparr>"
    by (simp add: process_sheets_parallel_def demo_task_values bind_def ascii_eq_Nil
        ThreadManager_init_def)
  have n: "[ascii ''A''] \<noteq> []" by simp
  from pool_has_max_workers [OF r n, of 12 "Some 8"] pool_has_max_workers [OF r n, of 12 None] r n
  show ?thesis by simp
qed

end
